theory Spec2Isabelle
  imports Main "HOL-Library.Word"
begin

unbundle bit_operations_syntax

section \<open>Values of the JavaScript program\<close>

text \<open>
  A JavaScript string is a sequence of 16-bit code units; the content of a
  \<^verbatim>\<open>Uint8Array\<close> is a sequence of bytes. String literals of the source are
  written \<open>js ''...''\<close>.
\<close>

type_synonym code_unit = "16 word"
type_synonym jsstring = "code_unit list"
type_synonym byte = "8 word"
type_synonym bytes = "byte list"

definition js :: "string \<Rightarrow> jsstring" where
  "js s = map of_char s"

text \<open>\<^verbatim>\<open>s.startsWith(p)\<close>, \<^verbatim>\<open>s.endsWith(p)\<close>, \<^verbatim>\<open>s.slice(0, -2)\<close> and
  \<^verbatim>\<open>s.replace(/\/$/, '')\<close> (the pattern matches one \<open>/\<close> at the end of the input).\<close>

definition startsWith :: "jsstring \<Rightarrow> jsstring \<Rightarrow> bool" where
  "startsWith s p \<longleftrightarrow> take (length p) s = p"

definition endsWith :: "jsstring \<Rightarrow> jsstring \<Rightarrow> bool" where
  "endsWith s p \<longleftrightarrow> length p \<le> length s \<and> drop (length s - length p) s = p"

definition slice_0_minus2 :: "jsstring \<Rightarrow> jsstring" where
  "slice_0_minus2 s = take (length s - 2) s"

definition strip_trailing_slash :: "jsstring \<Rightarrow> jsstring" where
  "strip_trailing_slash s = (if s \<noteq> [] \<and> last s = 0x2F then butlast s else s)"

text \<open>
  Exceptions are values. The three \<^verbatim>\<open>Error\<close> objects that \<^verbatim>\<open>crypto-utils.js\<close>
  constructs are told apart by their message (key derivation failed, encryption
  failed, decryption failed); \<open>InvalidCharacterError\<close> is the exception of
  \<^verbatim>\<open>btoa\<close> and \<^verbatim>\<open>atob\<close>, \<open>RangeError\<close> that of \<^verbatim>\<open>TypedArray.set\<close>,
  \<open>TypeError\<close> that of \<^verbatim>\<open>new URL\<close>; \<open>CryptoFailure\<close> and \<open>StorageFailure\<close> stand
  for whatever a rejected promise of \<^verbatim>\<open>crypto.subtle\<close> or of
  \<^verbatim>\<open>chrome.storage.local\<close> carries.
\<close>

datatype error =
    KeyDerivationFailed
  | EncryptFailed
  | DecryptFailed
  | InvalidCharacterError
  | RangeError
  | TypeError
  | CryptoFailure
  | StorageFailure

text \<open>What a call leaves behind besides its result: console output and the
  strings handed to \<^verbatim>\<open>new URL\<close>, in order.\<close>

datatype event = ConsoleDebug | ConsoleWarn | ConsoleError | NewURL jsstring

type_synonym 'a io = "'a \<times> event list"

definition emit :: "event list \<Rightarrow> 'a io \<Rightarrow> 'a io" where
  "emit es r = (fst r, es @ snd r)"

section \<open>Platform: TextEncoder and TextDecoder\<close>

text \<open>
  \<^verbatim>\<open>new TextEncoder().encode(s)\<close> converts \<open>s\<close> to a sequence of scalar values
  (a surrogate pair becomes one supplementary code point, an unpaired surrogate
  becomes U+FFFD) and writes each in UTF-8.
\<close>

definition is_lead :: "code_unit \<Rightarrow> bool" where
  "is_lead c \<longleftrightarrow> 0xD800 \<le> c \<and> c \<le> 0xDBFF"

definition is_trail :: "code_unit \<Rightarrow> bool" where
  "is_trail c \<longleftrightarrow> 0xDC00 \<le> c \<and> c \<le> 0xDFFF"

fun scalar_values :: "jsstring \<Rightarrow> nat list" where
  "scalar_values [] = []"
| "scalar_values [c] = [if is_lead c \<or> is_trail c then 0xFFFD else unat c]"
| "scalar_values (c # d # ds) =
     (if is_lead c \<and> is_trail d
        then (0x10000 + (unat c - 0xD800) * 0x400 + (unat d - 0xDC00)) # scalar_values ds
      else if is_lead c \<or> is_trail c then 0xFFFD # scalar_values (d # ds)
      else unat c # scalar_values (d # ds))"

definition utf8_encode_cp :: "nat \<Rightarrow> bytes" where
  "utf8_encode_cp cp =
     (if cp < 0x80 then [of_nat cp]
      else if cp < 0x800 then
        [of_nat (0xC0 + cp div 0x40), of_nat (0x80 + cp mod 0x40)]
      else if cp < 0x10000 then
        [of_nat (0xE0 + cp div 0x1000), of_nat (0x80 + cp div 0x40 mod 0x40),
         of_nat (0x80 + cp mod 0x40)]
      else
        [of_nat (0xF0 + cp div 0x40000), of_nat (0x80 + cp div 0x1000 mod 0x40),
         of_nat (0x80 + cp div 0x40 mod 0x40), of_nat (0x80 + cp mod 0x40)])"

definition TextEncoder_encode :: "jsstring \<Rightarrow> bytes" where
  "TextEncoder_encode s = concat (map utf8_encode_cp (scalar_values s))"

text \<open>
  \<^verbatim>\<open>new TextDecoder().decode(bytes)\<close>: the UTF-8 decoder in replacement mode
  (not fatal), as a state machine over the code point under construction, the
  continuation bytes seen and needed, and the bounds of the next byte. A byte
  that cannot continue a sequence yields U+FFFD and is read again in the
  initial state. \<open>x mod 0x20\<close> is \<open>x & 0x1F\<close>, \<open>cp * 0x40 + x mod 0x40\<close> is
  \<open>(cp << 6) | (x & 0x3F)\<close>.
\<close>

function utf8_decode :: "nat \<Rightarrow> nat \<Rightarrow> nat \<Rightarrow> nat \<Rightarrow> nat \<Rightarrow> bytes \<Rightarrow> nat list" where
  "utf8_decode cp seen needed lo hi [] = (if needed \<noteq> 0 then [0xFFFD] else [])"
| "utf8_decode cp seen needed lo hi (b # bs) =
     (if needed = 0 then
        (if unat b \<le> 0x7F then unat b # utf8_decode 0 0 0 0x80 0xBF bs
         else if 0xC2 \<le> unat b \<and> unat b \<le> 0xDF then
           utf8_decode (unat b mod 0x20) 0 1 0x80 0xBF bs
         else if 0xE0 \<le> unat b \<and> unat b \<le> 0xEF then
           utf8_decode (unat b mod 0x10) 0 2
             (if unat b = 0xE0 then 0xA0 else 0x80) (if unat b = 0xED then 0x9F else 0xBF) bs
         else if 0xF0 \<le> unat b \<and> unat b \<le> 0xF4 then
           utf8_decode (unat b mod 8) 0 3
             (if unat b = 0xF0 then 0x90 else 0x80) (if unat b = 0xF4 then 0x8F else 0xBF) bs
         else 0xFFFD # utf8_decode 0 0 0 0x80 0xBF bs)
      else if unat b < lo \<or> hi < unat b then
        0xFFFD # utf8_decode 0 0 0 0x80 0xBF (b # bs)
      else if seen + 1 \<noteq> needed then
        utf8_decode (cp * 0x40 + unat b mod 0x40) (seen + 1) needed 0x80 0xBF bs
      else (cp * 0x40 + unat b mod 0x40) # utf8_decode 0 0 0 0x80 0xBF bs)"
  by pat_completeness auto
termination
  by (relation "measure (\<lambda>(cp, seen, needed, lo, hi, bs).
        2 * length bs + (if needed = 0 then 0 else 1))") auto

text \<open>The decoder was constructed without \<^verbatim>\<open>ignoreBOM\<close>, so a leading U+FEFF
  of the decoded text is dropped. Code points above U+FFFF become surrogate
  pairs of the resulting string.\<close>

fun strip_bom :: "nat list \<Rightarrow> nat list" where
  "strip_bom [] = []"
| "strip_bom (cp # cps) = (if cp = 0xFEFF then cps else cp # cps)"

definition code_units_of :: "nat \<Rightarrow> jsstring" where
  "code_units_of cp =
     (if cp < 0x10000 then [of_nat cp]
      else [of_nat (0xD800 + (cp - 0x10000) div 0x400),
            of_nat (0xDC00 + (cp - 0x10000) mod 0x400)])"

definition TextDecoder_decode :: "bytes \<Rightarrow> jsstring" where
  "TextDecoder_decode bs =
     concat (map code_units_of (strip_bom (utf8_decode 0 0 0 0x80 0xBF bs)))"

text \<open>A string without unpaired surrogates.\<close>

fun well_formed :: "jsstring \<Rightarrow> bool" where
  "well_formed [] = True"
| "well_formed [c] = (\<not> is_lead c \<and> \<not> is_trail c)"
| "well_formed (c # d # ds) =
     (if is_lead c then is_trail d \<and> well_formed ds
      else \<not> is_trail c \<and> well_formed (d # ds))"

text \<open>A Unicode scalar value: a code point that is not a surrogate.\<close>

definition is_scalar :: "nat \<Rightarrow> bool" where
  "is_scalar cp \<longleftrightarrow> cp < 0x110000 \<and> \<not> (0xD800 \<le> cp \<and> cp \<le> 0xDFFF)"

section \<open>Platform: btoa and atob\<close>

text \<open>
  \<^verbatim>\<open>btoa(binary)\<close> throws when a code unit of its argument exceeds 0xFF and
  otherwise encodes the code units as bytes in base64 with padding: three
  bytes become four sextets, one or two trailing bytes become two or three
  sextets followed by \<open>==\<close> or \<open>=\<close>.
\<close>

definition b64_char :: "nat \<Rightarrow> code_unit" where
  "b64_char n =
     (if n < 26 then of_nat (0x41 + n)
      else if n < 52 then of_nat (0x61 + (n - 26))
      else if n < 62 then of_nat (0x30 + (n - 52))
      else if n = 62 then 0x2B
      else 0x2F)"

fun b64_sextets :: "nat list \<Rightarrow> nat list" where
  "b64_sextets (a # b # c # r) =
     [a div 4, a mod 4 * 16 + b div 16, b mod 16 * 4 + c div 64, c mod 64] @ b64_sextets r"
| "b64_sextets [a, b] = [a div 4, a mod 4 * 16 + b div 16, b mod 16 * 4]"
| "b64_sextets [a] = [a div 4, a mod 4 * 16]"
| "b64_sextets [] = []"

definition b64_encode :: "nat list \<Rightarrow> jsstring" where
  "b64_encode xs =
     map b64_char (b64_sextets xs) @ replicate ((3 - length xs mod 3) mod 3) 0x3D"

definition btoa :: "jsstring \<Rightarrow> error + jsstring" where
  "btoa s =
     (if list_ex (\<lambda>c. 0xFF < c) s then Inl InvalidCharacterError
      else Inr (b64_encode (map unat s)))"

text \<open>
  \<^verbatim>\<open>atob(data)\<close>: ASCII whitespace is removed; when the length is then a
  multiple of four, one or two trailing \<open>=\<close> are removed; a remaining length
  of 1 modulo 4 or a character outside the alphabet throws; every four
  sextets give three bytes, and the bits left over of a final group of two or
  three sextets are discarded.
\<close>

definition is_ascii_whitespace :: "code_unit \<Rightarrow> bool" where
  "is_ascii_whitespace c \<longleftrightarrow> c = 0x09 \<or> c = 0x0A \<or> c = 0x0C \<or> c = 0x0D \<or> c = 0x20"

definition b64_value :: "code_unit \<Rightarrow> nat option" where
  "b64_value c =
     (if 0x41 \<le> c \<and> c \<le> 0x5A then Some (unat c - 0x41)
      else if 0x61 \<le> c \<and> c \<le> 0x7A then Some (unat c - 0x61 + 26)
      else if 0x30 \<le> c \<and> c \<le> 0x39 then Some (unat c - 0x30 + 52)
      else if c = 0x2B then Some 62
      else if c = 0x2F then Some 63
      else None)"

fun b64_octets :: "nat list \<Rightarrow> nat list" where
  "b64_octets (p # q # r # s # rest) =
     [p * 4 + q div 16, q mod 16 * 16 + r div 4, r mod 4 * 64 + s] @ b64_octets rest"
| "b64_octets [p, q, r] = [p * 4 + q div 16, q mod 16 * 16 + r div 4]"
| "b64_octets [p, q] = [p * 4 + q div 16]"
| "b64_octets [p] = []"
| "b64_octets [] = []"

definition strip_padding :: "jsstring \<Rightarrow> jsstring" where
  "strip_padding d =
     (if length d mod 4 = 0 then
        (if endsWith d [0x3D, 0x3D] then take (length d - 2) d
         else if endsWith d [0x3D] then take (length d - 1) d
         else d)
      else d)"

definition atob :: "jsstring \<Rightarrow> error + jsstring" where
  "atob s =
     (let d = strip_padding (filter (\<lambda>c. \<not> is_ascii_whitespace c) s) in
      if length d mod 4 = 1 then Inl InvalidCharacterError
      else if list_ex (\<lambda>c. b64_value c = None) d then Inl InvalidCharacterError
      else Inr (map of_nat (b64_octets (map (\<lambda>c. the (b64_value c)) d))))"

section \<open>Effects and exceptions\<close>

text \<open>
  An asynchronous function of the source returns a value or throws, and leaves
  events behind. \<open>bind_io\<close> is sequencing (\<^verbatim>\<open>await\<close>), \<open>try_catch\<close> is
  \<^verbatim>\<open>try { ... } catch (error) { ... }\<close>: the events of the body stay, the
  handler runs on the exception.
\<close>

definition return :: "'a \<Rightarrow> (error + 'a) io" where
  "return v = (Inr v, [])"

definition throw :: "error \<Rightarrow> (error + 'a) io" where
  "throw e = (Inl e, [])"

definition lift :: "error + 'a \<Rightarrow> (error + 'a) io" where
  "lift r = (r, [])"

definition of_option :: "error \<Rightarrow> 'a option \<Rightarrow> (error + 'a) io" where
  "of_option e r = (case r of None \<Rightarrow> throw e | Some v \<Rightarrow> return v)"

definition bind_io :: "(error + 'a) io \<Rightarrow> ('a \<Rightarrow> (error + 'b) io) \<Rightarrow> (error + 'b) io" where
  "bind_io m f = (case fst m of Inl e \<Rightarrow> (Inl e, snd m) | Inr v \<Rightarrow> emit (snd m) (f v))"

definition try_catch :: "(error + 'a) io \<Rightarrow> (error \<Rightarrow> (error + 'a) io) \<Rightarrow> (error + 'a) io" where
  "try_catch body handler =
     (case fst body of Inl e \<Rightarrow> emit (snd body) (handler e) | Inr v \<Rightarrow> body)"

section \<open>Platform: Web Crypto, randomness, typed arrays, extension storage\<close>

text \<open>
  \<^verbatim>\<open>crypto.subtle\<close> is a parameter of the model. Keys are their key material.
  \<open>None\<close> is a rejected promise (primitive unavailable, operation error,
  authentication tag mismatch).
  \<^item> \<open>subtle_importKey pw\<close>: \<^verbatim>\<open>importKey('raw', pw, {name: 'PBKDF2'}, false, [...])\<close>;
  \<^item> \<open>subtle_deriveKey k salt n\<close>: \<^verbatim>\<open>deriveKey\<close> with PBKDF2, SHA-256, \<open>n\<close>
    iterations, to an AES-GCM key of 256 bits;
  \<^item> \<open>subtle_encrypt k iv data\<close>, \<open>subtle_decrypt k iv data\<close>: AES-GCM.
\<close>

record platform =
  subtle_importKey :: "bytes \<Rightarrow> bytes option"
  subtle_deriveKey :: "bytes \<Rightarrow> bytes \<Rightarrow> nat \<Rightarrow> bytes option"
  subtle_encrypt :: "bytes \<Rightarrow> bytes \<Rightarrow> bytes \<Rightarrow> bytes option"
  subtle_decrypt :: "bytes \<Rightarrow> bytes \<Rightarrow> bytes \<Rightarrow> bytes option"

text \<open>The contract of an authenticated cipher that the round trip relies on:
  what was encrypted under a key and an IV decrypts under the same key and IV.\<close>

definition aead_correct :: "platform \<Rightarrow> bool" where
  "aead_correct P \<longleftrightarrow>
     (\<forall>k iv d c. subtle_encrypt P k iv d = Some c \<longrightarrow> subtle_decrypt P k iv c = Some d)"

text \<open>
  The randomness source is an input: an unbounded supply of bytes.
  \<^verbatim>\<open>crypto.getRandomValues(new Uint8Array(n))\<close> takes the next \<open>n\<close> of them.
\<close>

definition getRandomValues :: "(nat \<Rightarrow> byte) \<Rightarrow> nat \<Rightarrow> bytes" where
  "getRandomValues rnd n = map rnd [0..<n]"

definition advance :: "(nat \<Rightarrow> byte) \<Rightarrow> nat \<Rightarrow> (nat \<Rightarrow> byte)" where
  "advance rnd n = (\<lambda>i. rnd (i + n))"

text \<open>\<^verbatim>\<open>target.set(source, offset)\<close> and \<^verbatim>\<open>data.slice(begin, end)\<close> on a
  \<^verbatim>\<open>Uint8Array\<close>, the latter for \<open>0 \<le> begin \<le> end\<close>.\<close>

definition uint8_set :: "bytes \<Rightarrow> bytes \<Rightarrow> nat \<Rightarrow> error + bytes" where
  "uint8_set target source offset =
     (if length target < offset + length source then Inl RangeError
      else Inr (take offset target @ source @ drop (offset + length source) target))"

definition uint8_slice :: "bytes \<Rightarrow> nat \<Rightarrow> nat \<Rightarrow> bytes" where
  "uint8_slice data b e = take (e - b) (drop b data)"

section \<open>Data model\<close>

text \<open>An environment as it is stored. The field \<^verbatim>\<open>id\<close> is \<open>env_id\<close> here. A
  \<open>loginUrl\<close> that is missing is the empty string: the program only tests
  it with \<^verbatim>\<open>!env.loginUrl\<close>, which holds of both.\<close>

record environment =
  env_id :: jsstring
  name :: jsstring
  loginUrl :: jsstring
  loginButtonId :: jsstring
  loginButtonClass :: jsstring

text \<open>\<^verbatim>\<open>chrome.storage.local\<close>: the values under the keys \<^verbatim>\<open>masterPassword\<close> and
  \<^verbatim>\<open>environments\<close>, each present or not, and whether the store answers at all.\<close>

record storage =
  available :: bool
  st_masterPassword :: "jsstring option"
  st_environments :: "environment list option"

definition chrome_storage_get :: "storage \<Rightarrow> (error + storage) io" where
  "chrome_storage_get st = (if available st then return st else throw StorageFailure)"

section \<open>crypto-utils.js\<close>

definition deriveKey :: "platform \<Rightarrow> jsstring \<Rightarrow> bytes \<Rightarrow> (error + bytes) io" where
  "deriveKey P password salt =
     try_catch
       (bind_io (of_option CryptoFailure (subtle_importKey P (TextEncoder_encode password)))
          (\<lambda>passwordKey.
        bind_io (of_option CryptoFailure (subtle_deriveKey P passwordKey salt 100000))
          (\<lambda>key.
        return key)))
       (\<lambda>error. emit [ConsoleError] (throw KeyDerivationFailed))"

definition generateSalt :: "(nat \<Rightarrow> byte) \<Rightarrow> bytes" where
  "generateSalt rnd = getRandomValues rnd 16"

definition generateIV :: "(nat \<Rightarrow> byte) \<Rightarrow> bytes" where
  "generateIV rnd = getRandomValues rnd 12"

text \<open>The loop of \<open>arrayBufferToBase64\<close> appends \<^verbatim>\<open>String.fromCharCode(bytes[i])\<close>
  to \<open>binary\<close>; that of \<open>base64ToArrayBuffer\<close> stores \<^verbatim>\<open>binary.charCodeAt(i)\<close>
  into a \<^verbatim>\<open>Uint8Array\<close>, which keeps the low eight bits.\<close>

fun fromCharCode_loop :: "bytes \<Rightarrow> jsstring \<Rightarrow> jsstring" where
  "fromCharCode_loop [] binary = binary"
| "fromCharCode_loop (b # bs) binary = fromCharCode_loop bs (binary @ [ucast b])"

definition arrayBufferToBase64 :: "bytes \<Rightarrow> error + jsstring" where
  "arrayBufferToBase64 buffer = btoa (fromCharCode_loop buffer [])"

fun charCodeAt_loop :: "jsstring \<Rightarrow> bytes \<Rightarrow> bytes" where
  "charCodeAt_loop [] bytes = bytes"
| "charCodeAt_loop (c # cs) bytes = charCodeAt_loop cs (bytes @ [ucast c])"

definition base64ToArrayBuffer :: "jsstring \<Rightarrow> error + bytes" where
  "base64ToArrayBuffer base64 =
     (case atob base64 of Inl e \<Rightarrow> Inl e | Inr binary \<Rightarrow> Inr (charCodeAt_loop binary []))"

definition encrypt :: "platform \<Rightarrow> (nat \<Rightarrow> byte) \<Rightarrow> jsstring \<Rightarrow> jsstring \<Rightarrow> (error + jsstring) io" where
  "encrypt P rnd plaintext password =
     try_catch
       (let data = TextEncoder_encode plaintext;
            salt = generateSalt rnd;
            iv = generateIV (advance rnd 16) in
        bind_io (deriveKey P password salt) (\<lambda>key.
        bind_io (of_option CryptoFailure (subtle_encrypt P key iv data)) (\<lambda>encrypted.
        bind_io (lift (uint8_set
            (replicate (length salt + length iv + length encrypted) 0) salt 0)) (\<lambda>r1.
        bind_io (lift (uint8_set r1 iv (length salt))) (\<lambda>r2.
        bind_io (lift (uint8_set r2 encrypted (length salt + length iv))) (\<lambda>result.
        lift (arrayBufferToBase64 result)))))))
       (\<lambda>error. emit [ConsoleError] (throw EncryptFailed))"

definition decrypt :: "platform \<Rightarrow> jsstring \<Rightarrow> jsstring \<Rightarrow> (error + jsstring) io" where
  "decrypt P ciphertext password =
     try_catch
       (bind_io (lift (base64ToArrayBuffer ciphertext)) (\<lambda>data.
        let salt = uint8_slice data 0 16;
            iv = uint8_slice data 16 28;
            encrypted = drop 28 data in
        bind_io (deriveKey P password salt) (\<lambda>key.
        bind_io (of_option CryptoFailure (subtle_decrypt P key iv encrypted)) (\<lambda>decrypted.
        return (TextDecoder_decode decrypted)))))
       (\<lambda>error. emit [ConsoleError] (throw DecryptFailed))"

text \<open>A master password is \<^verbatim>\<open>null\<close> (\<open>None\<close>) or a string; \<open>truthy\<close> is
  JavaScript's test of such a value in \<^verbatim>\<open>||\<close> and \<^verbatim>\<open>!\<close>.\<close>

definition truthy :: "jsstring option \<Rightarrow> bool" where
  "truthy m \<longleftrightarrow> (case m of None \<Rightarrow> False | Some s \<Rightarrow> s \<noteq> [])"

definition getMasterPassword :: "storage \<Rightarrow> (error + jsstring option) io" where
  "getMasterPassword st =
     try_catch
       (bind_io (chrome_storage_get st) (\<lambda>result.
        return (if truthy (st_masterPassword result) then st_masterPassword result else None)))
       (\<lambda>error. emit [ConsoleError] (return None))"

definition setMasterPassword :: "storage \<Rightarrow> jsstring \<Rightarrow> (error + bool) io \<times> storage" where
  "setMasterPassword st password =
     (if available st then (return True, st\<lparr>st_masterPassword := Some password\<rparr>)
      else (emit [ConsoleError] (return False), st))"

text \<open>The pattern \<^verbatim>\<open>/^[A-Za-z0-9+/]*={0,2}$/\<close>: after the longest run of
  alphabet characters (which \<open>=\<close> is not part of) at most two \<open>=\<close> remain,
  up to the end of the input.\<close>

definition is_base64_alphabet :: "code_unit \<Rightarrow> bool" where
  "is_base64_alphabet c \<longleftrightarrow>
     (0x41 \<le> c \<and> c \<le> 0x5A) \<or> (0x61 \<le> c \<and> c \<le> 0x7A) \<or> (0x30 \<le> c \<and> c \<le> 0x39)
     \<or> c = 0x2B \<or> c = 0x2F"

definition base64Regex_test :: "jsstring \<Rightarrow> bool" where
  "base64Regex_test str =
     (let rest = dropWhile is_base64_alphabet str
      in rest = [] \<or> rest = [0x3D] \<or> rest = [0x3D, 0x3D])"

definition isBase64 :: "jsstring \<Rightarrow> bool" where
  "isBase64 str \<longleftrightarrow> base64Regex_test str \<and> length str > 0"

definition encryptPassword ::
  "platform \<Rightarrow> (nat \<Rightarrow> byte) \<Rightarrow> storage \<Rightarrow> jsstring \<Rightarrow> jsstring option \<Rightarrow> (error + jsstring) io" where
  "encryptPassword P rnd st password masterPassword =
     bind_io (if truthy masterPassword then return masterPassword else getMasterPassword st)
       (\<lambda>master.
        if \<not> truthy master then emit [ConsoleWarn] (return password)
        else try_catch (encrypt P rnd password (the master))
               (\<lambda>error. emit [ConsoleError] (return password)))"

definition decryptPassword ::
  "platform \<Rightarrow> storage \<Rightarrow> jsstring \<Rightarrow> jsstring option \<Rightarrow> (error + jsstring) io" where
  "decryptPassword P st encryptedPassword masterPassword =
     (if \<not> isBase64 encryptedPassword then return encryptedPassword
      else
        bind_io (if truthy masterPassword then return masterPassword else getMasterPassword st)
          (\<lambda>master.
           if \<not> truthy master then emit [ConsoleWarn] (return encryptedPassword)
           else try_catch (decrypt P encryptedPassword (the master))
                  (\<lambda>error. emit [ConsoleError] (return encryptedPassword))))"

text \<open>The value of \<^verbatim>\<open>masterPassword || await this.getMasterPassword()\<close>, the
  master secret both wrappers go on with: \<open>None\<close> or a non-empty string.\<close>

definition resolved_master :: "storage \<Rightarrow> jsstring option \<Rightarrow> jsstring option" where
  "resolved_master st masterPassword =
     (if truthy masterPassword then masterPassword
      else if available st \<and> truthy (st_masterPassword st) then st_masterPassword st
      else None)"

section \<open>content.js: the environment matcher\<close>

text \<open>
  The fields of a \<^verbatim>\<open>URL\<close> object that exist after parsing. \<^verbatim>\<open>new URL\<close> itself is
  a parameter \<open>parse\<close> of the matcher (\<open>None\<close>: it throws a \<open>TypeError\<close>);
  every call is recorded as an event.
\<close>

record url =
  protocol :: jsstring
  host :: jsstring
  pathname :: jsstring
  search :: jsstring
  hash :: jsstring

definition new_URL :: "(jsstring \<Rightarrow> url option) \<Rightarrow> jsstring \<Rightarrow> (error + url) io" where
  "new_URL parse s = emit [NewURL s] (of_option TypeError (parse s))"

text \<open>The template \<^verbatim>\<open>`${url.protocol}//${url.host}${url.pathname}`\<close> followed
  by \<^verbatim>\<open>.replace(/\/$/, '')\<close>, the same expression in both places it occurs.\<close>

definition normalizeUrl :: "url \<Rightarrow> jsstring" where
  "normalizeUrl u = strip_trailing_slash (protocol u @ js ''//'' @ host u @ pathname u)"

text \<open>The body of the loop over the environments, for one environment:
  \<open>Some env\<close> is \<^verbatim>\<open>return env\<close>, \<open>None\<close> goes on to the next environment
  (by \<^verbatim>\<open>continue\<close> or by reaching the end of the body).\<close>

definition match_env ::
  "(jsstring \<Rightarrow> url option) \<Rightarrow> jsstring \<Rightarrow> environment \<Rightarrow> (error + environment option) io" where
  "match_env parse normalizedCurrentUrl env =
     (if loginUrl env = [] then return None
      else
        try_catch
          (bind_io (new_URL parse (loginUrl env)) (\<lambda>envUrl.
           let normalizedEnvUrl = normalizeUrl envUrl in
           if normalizedCurrentUrl = normalizedEnvUrl then
             emit [ConsoleDebug] (return (Some env))
           else if endsWith normalizedEnvUrl (js ''/*'')
                   \<and> startsWith normalizedCurrentUrl (slice_0_minus2 normalizedEnvUrl) then
             emit [ConsoleDebug] (return (Some env))
           else return None))
          (\<lambda>error. emit [ConsoleDebug] (return None)))"

fun match_loop ::
  "(jsstring \<Rightarrow> url option) \<Rightarrow> jsstring \<Rightarrow> environment list \<Rightarrow> (error + environment option) io" where
  "match_loop parse normalizedCurrentUrl [] = return None"
| "match_loop parse normalizedCurrentUrl (env # envs) =
     (case fst (match_env parse normalizedCurrentUrl env) of
        Inr None \<Rightarrow>
          emit (snd (match_env parse normalizedCurrentUrl env))
            (match_loop parse normalizedCurrentUrl envs)
      | _ \<Rightarrow> match_env parse normalizedCurrentUrl env)"

definition matchEnvironment ::
  "(jsstring \<Rightarrow> url option) \<Rightarrow> storage \<Rightarrow> jsstring \<Rightarrow> (error + environment option) io" where
  "matchEnvironment parse st currentUrl =
     (if currentUrl = [] then return None
      else
        try_catch
          (bind_io (chrome_storage_get st) (\<lambda>result.
           let environments = (case st_environments result of None \<Rightarrow> [] | Some es \<Rightarrow> es) in
           bind_io
             (try_catch
                (bind_io (new_URL parse currentUrl) (\<lambda>url. return (normalizeUrl url)))
                (\<lambda>error. emit [ConsoleDebug] (return currentUrl)))
             (\<lambda>normalizedCurrentUrl. match_loop parse normalizedCurrentUrl environments)))
          (\<lambda>error. emit [ConsoleError] (return None)))"

text \<open>
  \<open>initFloatingPanel\<close> up to the point where it builds the panel: the result is
  the environment the panel is created for, \<open>None\<close> when the function returns
  before that. \<open>location_protocol\<close> and \<open>href\<close> are \<^verbatim>\<open>window.location.protocol\<close>
  and \<^verbatim>\<open>window.location.href\<close>.
\<close>

definition initFloatingPanel ::
  "(jsstring \<Rightarrow> url option) \<Rightarrow> storage \<Rightarrow> jsstring \<Rightarrow> jsstring \<Rightarrow> (error + environment option) io" where
  "initFloatingPanel parse st location_protocol href =
     (if location_protocol = js ''chrome:'' \<or> location_protocol = js ''chrome-extension:''
      then return None
      else if href = [] \<or> \<not> startsWith href (js ''http'') then
        emit [ConsoleDebug] (return None)
      else
        bind_io (matchEnvironment parse st href) (\<lambda>matchedEnv.
        emit [ConsoleDebug] (return matchedEnv)))"

text \<open>When an environment is selected by the loop, in one predicate: its
  \<open>loginUrl\<close> is not empty, parses, and its normal form equals the candidate's
  or ends in \<open>/*\<close> with the rest a prefix of the candidate's.\<close>

definition env_matches :: "(jsstring \<Rightarrow> url option) \<Rightarrow> jsstring \<Rightarrow> environment \<Rightarrow> bool" where
  "env_matches parse n env \<longleftrightarrow>
     loginUrl env \<noteq> [] \<and>
     (case parse (loginUrl env) of
        None \<Rightarrow> False
      | Some u \<Rightarrow> n = normalizeUrl u
          \<or> (endsWith (normalizeUrl u) (js ''/*'') \<and> startsWith n (slice_0_minus2 (normalizeUrl u))))"

definition normalized_candidate :: "(jsstring \<Rightarrow> url option) \<Rightarrow> jsstring \<Rightarrow> jsstring" where
  "normalized_candidate parse currentUrl =
     (case parse currentUrl of None \<Rightarrow> currentUrl | Some u \<Rightarrow> normalizeUrl u)"

section \<open>Reference instances of the parameters\<close>

text \<open>
  \<open>parseURL\<close> decides \<^verbatim>\<open>new URL\<close> on plain absolute URLs
  \<open>scheme://host/path?query#fragment\<close> that the parser leaves as they are:
  a scheme of lower-case letters other than \<open>file\<close>, a host of lower-case
  letters separated by single dots, no credentials and no port, a path of
  letters, digits, \<open>/\<close>, \<open>*\<close>, \<open>-\<close> and \<open>_\<close>, a query of letters, digits, \<open>=\<close> and
  \<open>&\<close>, a fragment of letters and digits. For the schemes \<open>http\<close>, \<open>https\<close>,
  \<open>ws\<close>, \<open>wss\<close> and \<open>ftp\<close> an empty path reads \<open>/\<close>. Every other string is
  answered \<open>None\<close>; among these, the strings without a colon are rejected by
  \<^verbatim>\<open>new URL\<close> as well, for want of a scheme.
\<close>

definition is_lower :: "code_unit \<Rightarrow> bool" where
  "is_lower c \<longleftrightarrow> 0x61 \<le> c \<and> c \<le> 0x7A"

definition is_alnum :: "code_unit \<Rightarrow> bool" where
  "is_alnum c \<longleftrightarrow> (0x41 \<le> c \<and> c \<le> 0x5A) \<or> (0x61 \<le> c \<and> c \<le> 0x7A) \<or> (0x30 \<le> c \<and> c \<le> 0x39)"

definition is_path_char :: "code_unit \<Rightarrow> bool" where
  "is_path_char c \<longleftrightarrow> is_alnum c \<or> c = 0x2F \<or> c = 0x2A \<or> c = 0x2D \<or> c = 0x5F"

definition is_query_char :: "code_unit \<Rightarrow> bool" where
  "is_query_char c \<longleftrightarrow> is_alnum c \<or> c = 0x3D \<or> c = 0x26"

fun plain_host :: "jsstring \<Rightarrow> bool" where
  "plain_host [] = False"
| "plain_host [c] = is_lower c"
| "plain_host (c # d # ds) =
     (is_lower c \<and> (if d = 0x2E then plain_host ds else plain_host (d # ds)))"

definition parseURL :: "jsstring \<Rightarrow> url option" where
  "parseURL s =
     (let before_hash = takeWhile (\<lambda>c. c \<noteq> 0x23) s;
          fragment = drop (length before_hash + 1) s;
          before_query = takeWhile (\<lambda>c. c \<noteq> 0x3F) before_hash;
          query = drop (length before_query + 1) before_hash;
          scheme = takeWhile is_lower before_query;
          after_scheme = drop (length scheme) before_query;
          authority_path = drop 3 after_scheme;
          hostname = takeWhile (\<lambda>c. c \<noteq> 0x2F) authority_path;
          path = drop (length hostname) authority_path
      in if scheme \<noteq> [] \<and> scheme \<noteq> js ''file'' \<and> take 3 after_scheme = js ''://''
            \<and> plain_host hostname
            \<and> list_all is_path_char path \<and> list_all is_query_char query
            \<and> list_all is_alnum fragment
         then Some \<lparr>protocol = scheme @ js '':'',
                    host = hostname,
                    pathname = (if path = [] \<and> scheme \<in> set [js ''http'', js ''https'',
                                     js ''ws'', js ''wss'', js ''ftp''] then js ''/'' else path),
                    search = (if query = [] then [] else 0x3F # query),
                    hash = (if fragment = [] then [] else 0x23 # fragment)\<rparr>
         else None)"

text \<open>
  \<open>toy_platform\<close> is a stand-in for \<^verbatim>\<open>crypto.subtle\<close> with the shape of an
  authenticated cipher and none of its strength: the key is salt and password
  together, the ciphertext is the data with every byte moved by the first key
  byte, followed by 16 tag bytes that depend on key and IV; decryption checks
  the tag. It serves to run the program on concrete inputs.
\<close>

definition toy_tag :: "bytes \<Rightarrow> bytes \<Rightarrow> bytes" where
  "toy_tag k iv = replicate 16 (sum_list k + sum_list iv)"

definition toy_mask :: "bytes \<Rightarrow> byte" where
  "toy_mask k = (case k of [] \<Rightarrow> 0 | b # bs \<Rightarrow> b)"

definition toy_platform :: platform where
  "toy_platform =
     \<lparr>subtle_importKey = (\<lambda>pw. Some pw),
      subtle_deriveKey = (\<lambda>k salt n. Some (salt @ k)),
      subtle_encrypt = (\<lambda>k iv d. Some (map (\<lambda>b. b + toy_mask k) d @ toy_tag k iv)),
      subtle_decrypt = (\<lambda>k iv c.
         if length c < 16 \<or> drop (length c - 16) c \<noteq> toy_tag k iv then None
         else Some (map (\<lambda>b. b - toy_mask k) (take (length c - 16) c)))\<rparr>"

text \<open>A platform without Web Crypto: every primitive is rejected.\<close>

definition no_crypto :: platform where
  "no_crypto =
     \<lparr>subtle_importKey = (\<lambda>pw. None),
      subtle_deriveKey = (\<lambda>k salt n. None),
      subtle_encrypt = (\<lambda>k iv d. None),
      subtle_decrypt = (\<lambda>k iv c. None)\<rparr>"

definition toy_rnd :: "nat \<Rightarrow> byte" where
  "toy_rnd i = of_nat (7 * i + 3)"

definition env_of :: "string \<Rightarrow> string \<Rightarrow> environment" where
  "env_of n u = \<lparr>env_id = js n, name = js n, loginUrl = js u,
                 loginButtonId = [], loginButtonClass = []\<rparr>"

definition store_of :: "jsstring option \<Rightarrow> environment list \<Rightarrow> storage" where
  "store_of m envs = \<lparr>available = True, st_masterPassword = m, st_environments = Some envs\<rparr>"

section \<open>Results and events of composed calls\<close>

lemmas io_defs = return_def throw_def lift_def of_option_def bind_io_def try_catch_def emit_def

lemma fst_return: "fst (return v) = Inr v" and snd_return: "snd (return v) = []"
  by (simp_all add: return_def)

lemma fst_throw: "fst (throw e) = Inl e" and snd_throw: "snd (throw e) = []"
  by (simp_all add: throw_def)

lemma fst_emit: "fst (emit es r) = fst r" and snd_emit: "snd (emit es r) = es @ snd r"
  by (simp_all add: emit_def)

lemma fst_bind_io:
  "fst (bind_io m f) = (case fst m of Inl e \<Rightarrow> Inl e | Inr v \<Rightarrow> fst (f v))"
  by (simp add: bind_io_def emit_def split: sum.splits)

lemma snd_bind_io:
  "snd (bind_io m f) = (case fst m of Inl e \<Rightarrow> snd m | Inr v \<Rightarrow> snd m @ snd (f v))"
  by (simp add: bind_io_def emit_def split: sum.splits)

lemma fst_try_catch:
  "fst (try_catch body handler) = (case fst body of Inl e \<Rightarrow> fst (handler e) | Inr v \<Rightarrow> Inr v)"
  by (simp add: try_catch_def emit_def split: sum.splits)

lemma snd_try_catch:
  "snd (try_catch body handler) =
     (case fst body of Inl e \<Rightarrow> snd body @ snd (handler e) | Inr v \<Rightarrow> snd body)"
  by (simp add: try_catch_def emit_def split: sum.splits)

lemmas fst_io = fst_return fst_throw fst_emit fst_bind_io fst_try_catch
lemmas snd_io = snd_return snd_throw snd_emit snd_bind_io snd_try_catch

section \<open>The text codec inverts itself on well-formed text\<close>


lemma unat_byte: "n < 256 \<Longrightarrow> unat (of_nat n :: byte) = n"
  by (simp add: unat_of_nat)

lemma mod_plus_multiple: "c mod m = 0 \<Longrightarrow> a < m \<Longrightarrow> (c + a) mod m = (a::nat)"
  by (metis add.left_neutral mod_add_left_eq mod_less)

lemma utf8_decode_cont:
  assumes "unat b = 0x80 + x" "x < 64" "needed \<noteq> 0" "lo \<le> 0x80 + x" "0x80 + x \<le> hi"
  shows "utf8_decode cp seen needed lo hi (b # bs) =
     (if seen + 1 \<noteq> needed then utf8_decode (cp * 0x40 + x) (seen + 1) needed 0x80 0xBF bs
      else (cp * 0x40 + x) # utf8_decode 0 0 0 0x80 0xBF bs)"
proof -
  have m: "(0x80 + x) mod 0x40 = x" using assms by (intro mod_plus_multiple) simp_all
  show ?thesis using assms m by simp
qed

lemma dec2_bytes:
  assumes "unat b1 = 0xC0 + a" "2 \<le> a" "a < 32" "unat b2 = 0x80 + b" "b < 64"
  shows "utf8_decode 0 0 0 0x80 0xBF (b1 # b2 # rest) = (a * 64 + b) # utf8_decode 0 0 0 0x80 0xBF rest"
proof -
  have m1: "(0xC0 + a) mod 0x20 = a" using assms by (intro mod_plus_multiple) simp_all
  have "utf8_decode 0 0 0 0x80 0xBF (b1 # b2 # rest) = utf8_decode a 0 1 0x80 0xBF (b2 # rest)"
    using assms m1 by simp
  also have "\<dots> = (a * 64 + b) # utf8_decode 0 0 0 0x80 0xBF rest"
    using assms by (subst utf8_decode_cont[where x=b]) simp_all
  finally show ?thesis .
qed

lemma dec3_bytes:
  assumes "unat b1 = 0xE0 + a" "a < 16" "unat b2 = 0x80 + b" "b < 64" "unat b3 = 0x80 + c" "c < 64"
    "a = 0 \<longrightarrow> 32 \<le> b" "a = 13 \<longrightarrow> b < 32"
  shows "utf8_decode 0 0 0 0x80 0xBF (b1 # b2 # b3 # rest) = ((a * 64 + b) * 64 + c) # utf8_decode 0 0 0 0x80 0xBF rest"
proof -
  have m1: "(0xE0 + a) mod 0x10 = a" using assms by (intro mod_plus_multiple) simp_all
  have "utf8_decode 0 0 0 0x80 0xBF (b1 # b2 # b3 # rest) = utf8_decode a 0 2 (if a = 0 then 0xA0 else 0x80) (if a = 13 then 0x9F else 0xBF) (b2 # b3 # rest)"
    using assms m1 by simp
  also have "\<dots> = utf8_decode (a * 64 + b) 1 2 0x80 0xBF (b3 # rest)"
    using assms by (subst utf8_decode_cont[where x=b]) auto
  also have "\<dots> = ((a * 64 + b) * 64 + c) # utf8_decode 0 0 0 0x80 0xBF rest"
    using assms by (subst utf8_decode_cont[where x=c]) simp_all
  finally show ?thesis .
qed

lemma dec4_bytes:
  assumes "unat b1 = 0xF0 + a" "a < 5" "unat b2 = 0x80 + b" "b < 64" "unat b3 = 0x80 + c" "c < 64"
    "unat b4 = 0x80 + d" "d < 64"
    "a = 0 \<longrightarrow> 16 \<le> b" "a = 4 \<longrightarrow> b < 16"
  shows "utf8_decode 0 0 0 0x80 0xBF (b1 # b2 # b3 # b4 # rest) = (((a * 64 + b) * 64 + c) * 64 + d) # utf8_decode 0 0 0 0x80 0xBF rest"
proof -
  have m1: "(0xF0 + a) mod 8 = a" using assms by (intro mod_plus_multiple) simp_all
  have "utf8_decode 0 0 0 0x80 0xBF (b1 # b2 # b3 # b4 # rest) = utf8_decode a 0 3 (if a = 0 then 0x90 else 0x80) (if a = 4 then 0x8F else 0xBF) (b2 # b3 # b4 # rest)"
    using assms m1 by simp
  also have "\<dots> = utf8_decode (a * 64 + b) 1 3 0x80 0xBF (b3 # b4 # rest)"
    using assms by (subst utf8_decode_cont[where x=b]) auto
  also have "\<dots> = utf8_decode ((a * 64 + b) * 64 + c) 2 3 0x80 0xBF (b4 # rest)"
    using assms by (subst utf8_decode_cont[where x=c]) simp_all
  also have "\<dots> = (((a * 64 + b) * 64 + c) * 64 + d) # utf8_decode 0 0 0 0x80 0xBF rest"
    using assms by (subst utf8_decode_cont[where x=d]) simp_all
  finally show ?thesis .
qed


lemma div_mod_64: "(n::nat) div 64 * 64 + n mod 64 = n" by simp

lemma utf8_decode_encode_cp:
  assumes "is_scalar cp"
  shows "utf8_decode 0 0 0 0x80 0xBF (utf8_encode_cp cp @ rest) = cp # utf8_decode 0 0 0 0x80 0xBF rest"
proof -
  consider "cp < 0x80" | "0x80 \<le> cp" "cp < 0x800" | "0x800 \<le> cp" "cp < 0x10000" | "0x10000 \<le> cp"
    by linarith
  then show ?thesis
  proof cases
    case 1
    then show ?thesis by (simp add: utf8_encode_cp_def unat_byte)
  next
    case 2
    define a where "a = cp div 0x40"
    define b where "b = cp mod 0x40"
    define b1 :: byte where "b1 = of_nat (0xC0 + a)"
    define b2 :: byte where "b2 = of_nat (0x80 + b)"
    have ab: "2 \<le> a" "a < 32" "b < 64" using 2 by (simp_all add: a_def b_def)
    have cp: "a * 64 + b = cp" by (simp add: a_def b_def)
    have e: "utf8_encode_cp cp = [b1, b2]"
      using 2 by (simp add: utf8_encode_cp_def a_def b_def b1_def b2_def)
    have u: "unat b1 = 0xC0 + a" "unat b2 = 0x80 + b"
      unfolding b1_def b2_def using ab unat_byte[of "0xC0 + a"] unat_byte[of "0x80 + b"] by simp_all
    show ?thesis unfolding e using dec2_bytes[OF u(1) ab(1) ab(2) u(2) ab(3), of rest] cp by simp
  next
    case 3
    define a where "a = cp div 0x1000"
    define b where "b = cp div 0x40 mod 0x40"
    define c where "c = cp mod 0x40"
    define b1 :: byte where "b1 = of_nat (0xE0 + a)"
    define b2 :: byte where "b2 = of_nat (0x80 + b)"
    define b3 :: byte where "b3 = of_nat (0x80 + c)"
    have ab: "a < 16" "b < 64" "c < 64" using 3 by (simp_all add: a_def b_def c_def)
    have a64: "cp div 64 div 64 = a" by (simp add: a_def div_mult2_eq[symmetric])
    have cp: "(a * 64 + b) * 64 + c = cp"
      unfolding b_def c_def a64[symmetric] by (simp only: div_mod_64)
    have lo: "a = 0 \<longrightarrow> 32 \<le> b" using 3 cp ab by (intro impI) (simp, arith?)
    have sur: "\<not> (0xD800 \<le> cp \<and> cp \<le> 0xDFFF)" using assms by (simp add: is_scalar_def)
    have hi: "a = 13 \<longrightarrow> b < 32" using 3 sur cp ab by (intro impI) (simp, arith?)
    have e: "utf8_encode_cp cp = [b1, b2, b3]"
      using 3 by (simp add: utf8_encode_cp_def a_def b_def c_def b1_def b2_def b3_def)
    have u: "unat b1 = 0xE0 + a" "unat b2 = 0x80 + b" "unat b3 = 0x80 + c"
      unfolding b1_def b2_def b3_def
      using ab unat_byte[of "0xE0 + a"] unat_byte[of "0x80 + b"] unat_byte[of "0x80 + c"] by simp_all
    show ?thesis unfolding e
      using dec3_bytes[OF u(1) ab(1) u(2) ab(2) u(3) ab(3) lo hi, of rest] cp by simp
  next
    case 4
    define a where "a = cp div 0x40000"
    define b where "b = cp div 0x1000 mod 0x40"
    define c where "c = cp div 0x40 mod 0x40"
    define d where "d = cp mod 0x40"
    define b1 :: byte where "b1 = of_nat (0xF0 + a)"
    define b2 :: byte where "b2 = of_nat (0x80 + b)"
    define b3 :: byte where "b3 = of_nat (0x80 + c)"
    define b4 :: byte where "b4 = of_nat (0x80 + d)"
    have lt: "cp < 0x110000" using assms by (simp add: is_scalar_def)
    have ab: "a < 5" "b < 64" "c < 64" "d < 64" using 4 lt by (simp_all add: a_def b_def c_def d_def)
    have a1: "cp div 64 div 64 = cp div 0x1000" by (simp add: div_mult2_eq[symmetric])
    have a2: "cp div 0x1000 div 64 = a" by (simp add: a_def div_mult2_eq[symmetric])
    have cp: "((a * 64 + b) * 64 + c) * 64 + d = cp"
      unfolding b_def c_def d_def a2[symmetric] a1[symmetric] by (simp only: div_mod_64)
    have lo: "a = 0 \<longrightarrow> 16 \<le> b" using 4 cp ab by (intro impI) (simp, arith?)
    have hi: "a = 4 \<longrightarrow> b < 16" using lt cp ab by (intro impI) (simp, arith?)
    have e: "utf8_encode_cp cp = [b1, b2, b3, b4]"
      using 4 by (simp add: utf8_encode_cp_def a_def b_def c_def d_def b1_def b2_def b3_def b4_def)
    have u: "unat b1 = 0xF0 + a" "unat b2 = 0x80 + b" "unat b3 = 0x80 + c" "unat b4 = 0x80 + d"
      unfolding b1_def b2_def b3_def b4_def
      using ab unat_byte[of "0xF0 + a"] unat_byte[of "0x80 + b"] unat_byte[of "0x80 + c"]
        unat_byte[of "0x80 + d"] by simp_all
    show ?thesis unfolding e
      using dec4_bytes[OF u(1) ab(1) u(2) ab(2) u(3) ab(3) u(4) ab(4) lo hi, of rest] cp by simp
  qed
qed

lemma utf8_decode_encode:
  assumes "\<forall>cp \<in> set cps. is_scalar cp"
  shows "utf8_decode 0 0 0 0x80 0xBF (concat (map utf8_encode_cp cps)) = cps"
  using assms by (induction cps) (simp_all add: utf8_decode_encode_cp)


lemma is_lead_unat: "is_lead c \<longleftrightarrow> 0xD800 \<le> unat c \<and> unat c \<le> 0xDBFF"
  by (simp add: is_lead_def word_le_nat_alt)

lemma is_trail_unat: "is_trail c \<longleftrightarrow> 0xDC00 \<le> unat c \<and> unat c \<le> 0xDFFF"
  by (simp add: is_trail_def word_le_nat_alt)

lemma unat_code_unit_bound: "unat (c :: code_unit) < 0x10000"
  using unsigned_less[of c, where 'a=nat] by simp

lemma pair_is_scalar:
  assumes "is_lead c" "is_trail d"
  shows "is_scalar (0x10000 + (unat c - 0xD800) * 0x400 + (unat d - 0xDC00))"
  using assms unfolding is_lead_unat is_trail_unat is_scalar_def by simp arith

lemma single_is_scalar:
  assumes "\<not> is_lead c" "\<not> is_trail c"
  shows "is_scalar (unat c)"
  using assms unat_code_unit_bound[of c] unfolding is_lead_unat is_trail_unat is_scalar_def
  by auto

lemma scalar_values_scalar: "\<forall>cp \<in> set (scalar_values s). is_scalar cp"
proof (induction s rule: scalar_values.induct)
  case 1
  then show ?case by simp
next
  case (2 c)
  then show ?case using single_is_scalar[of c] by (auto simp: is_scalar_def)
next
  case (3 c d ds)
  then show ?case
    using single_is_scalar[of c] pair_is_scalar[of c d] by (auto simp: is_scalar_def)
qed

lemma code_units_of_single:
  "code_units_of (unat (c :: code_unit)) = [c]"
  using unat_code_unit_bound[of c] by (simp add: code_units_of_def)

lemma code_units_of_pair:
  assumes "is_lead c" "is_trail d"
  shows "code_units_of (0x10000 + (unat c - 0xD800) * 0x400 + (unat d - 0xDC00)) = [c, d]"
proof -
  define x where "x = unat c - 0xD800"
  define y where "y = unat d - 0xDC00"
  have xy: "x < 0x400" "y < 0x400" "0xD800 + x = unat c" "0xDC00 + y = unat d"
    using assms unfolding is_lead_unat is_trail_unat x_def y_def by (simp_all, arith+)
  have dv: "(x * 0x400 + y) div 0x400 = x" "(x * 0x400 + y) mod 0x400 = y"
    using xy by simp_all
  have "code_units_of (0x10000 + x * 0x400 + y) =
          [of_nat (0xD800 + (x * 0x400 + y) div 0x400), of_nat (0xDC00 + (x * 0x400 + y) mod 0x400)]"
    by (simp add: code_units_of_def)
  also have "\<dots> = [of_nat (unat c), of_nat (unat d)]"
    unfolding dv xy ..
  finally show ?thesis unfolding x_def y_def by simp
qed

lemma code_units_scalar_values:
  "well_formed s \<Longrightarrow> concat (map code_units_of (scalar_values s)) = s"
proof (induction s rule: scalar_values.induct)
  case 1
  then show ?case by simp
next
  case (2 c)
  then show ?case by (simp add: code_units_of_single)
next
  case (3 c d ds)
  then show ?case
    by (auto simp: code_units_of_single code_units_of_pair split: if_splits)
qed

lemma unat_FEFF: "unat (c :: code_unit) = 0xFEFF \<Longrightarrow> c = 0xFEFF"
proof -
  assume "unat c = 0xFEFF"
  then have "of_nat (unat c) = (of_nat 0xFEFF :: code_unit)" by simp
  then show ?thesis by simp
qed

lemma strip_bom_scalar_values:
  assumes "s = [] \<or> hd s \<noteq> 0xFEFF"
  shows "strip_bom (scalar_values s) = scalar_values s"
proof (cases s rule: scalar_values.cases)
  case 1
  then show ?thesis by simp
next
  case (2 c)
  then have "unat c \<noteq> 0xFEFF" using assms unat_FEFF[of c] by auto
  with 2 show ?thesis by simp
next
  case (3 c d ds)
  then have "unat c \<noteq> 0xFEFF" using assms unat_FEFF[of c] by auto
  moreover have "is_lead c \<Longrightarrow> is_trail d \<Longrightarrow> 0x10000 + (unat c - 0xD800) * 0x400 + (unat d - 0xDC00) \<noteq> 0xFEFF"
    by simp
  ultimately show ?thesis using 3 by simp
qed

lemma text_codec_roundtrip:
  assumes "well_formed s" "s = [] \<or> hd s \<noteq> 0xFEFF"
  shows "TextDecoder_decode (TextEncoder_encode s) = s"
  unfolding TextDecoder_decode_def TextEncoder_encode_def
  by (simp add: utf8_decode_encode[OF scalar_values_scalar] strip_bom_scalar_values[OF assms(2)]
      code_units_scalar_values[OF assms(1)])

text \<open>What the codec does to the two kinds of text it does not return unchanged.\<close>

lemma scalar_values_bom: "scalar_values (0xFEFF # s) = 0xFEFF # scalar_values s"
  by (cases s) (simp_all add: is_lead_def is_trail_def)

lemma leading_bom_is_lost:
  assumes "well_formed s"
  shows "TextDecoder_decode (TextEncoder_encode (0xFEFF # s)) = s"
proof -
  have "utf8_decode 0 0 0 0x80 0xBF (concat (map utf8_encode_cp (0xFEFF # scalar_values s)))
      = 0xFEFF # scalar_values s"
    using scalar_values_scalar[of s] by (intro utf8_decode_encode) (simp add: is_scalar_def)
  then show ?thesis
    unfolding TextDecoder_decode_def TextEncoder_encode_def scalar_values_bom
    using code_units_scalar_values[OF assms]
    by simp
qed

lemma unpaired_surrogate_is_replaced:
  "TextDecoder_decode (TextEncoder_encode [0xD83D]) = [0xFFFD]"
  by (simp add: TextDecoder_decode_def TextEncoder_encode_def utf8_encode_cp_def
      code_units_of_def is_lead_def is_trail_def)

section \<open>Base64 decoding inverts encoding\<close>


lemma fromCharCode_loop_eq: "fromCharCode_loop bs binary = binary @ map ucast bs"
  by (induction bs arbitrary: binary) simp_all

lemma charCodeAt_loop_eq: "charCodeAt_loop cs bytes = bytes @ map ucast cs"
  by (induction cs arbitrary: bytes) simp_all

lemma unat_cu: "n < 65536 \<Longrightarrow> unat (of_nat n :: code_unit) = n"
  by (simp add: unat_of_nat)

lemma b64_char_cases:
  assumes "n < 64"
  obtains "n < 26" "unat (b64_char n) = 0x41 + n"
  | "26 \<le> n" "n < 52" "unat (b64_char n) = 0x61 + (n - 26)"
  | "52 \<le> n" "n < 62" "unat (b64_char n) = 0x30 + (n - 52)"
  | "n = 62" "unat (b64_char n) = 0x2B"
  | "n = 63" "unat (b64_char n) = 0x2F"
proof -
  consider "n < 26" | "26 \<le> n" "n < 52" | "52 \<le> n" "n < 62" | "n = 62" | "n = 63"
    using assms by linarith
  then show ?thesis
  proof cases
    case 1
    then have "unat (b64_char n) = 0x41 + n"
      using unat_cu[of "0x41 + n"] by (simp add: b64_char_def)
    with 1 that(1) show ?thesis by blast
  next
    case 2
    then have "unat (b64_char n) = 0x61 + (n - 26)"
      using unat_cu[of "0x61 + (n - 26)"] by (simp add: b64_char_def)
    with 2 that(2) show ?thesis by blast
  next
    case 3
    then have "unat (b64_char n) = 0x30 + (n - 52)"
      using unat_cu[of "0x30 + (n - 52)"] by (simp add: b64_char_def)
    with 3 that(3) show ?thesis by blast
  next
    case 4
    then show ?thesis using that(4) by (simp add: b64_char_def)
  next
    case 5
    then show ?thesis using that(5) by (simp add: b64_char_def)
  qed
qed

lemma b64_value_unat:
  "b64_value c =
     (if 0x41 \<le> unat c \<and> unat c \<le> 0x5A then Some (unat c - 0x41)
      else if 0x61 \<le> unat c \<and> unat c \<le> 0x7A then Some (unat c - 0x61 + 26)
      else if 0x30 \<le> unat c \<and> unat c \<le> 0x39 then Some (unat c - 0x30 + 52)
      else if unat c = 0x2B then Some 62
      else if unat c = 0x2F then Some 63
      else None)"
  unfolding b64_value_def word_le_nat_alt
  by (simp add: word_unat_eq_iff)


lemma b64_value_char: "n < 64 \<Longrightarrow> b64_value (b64_char n) = Some n"
  by (erule b64_char_cases) (simp_all add: b64_value_unat, arith)

lemma b64_char_not_pad: "n < 64 \<Longrightarrow> b64_char n \<noteq> 0x3D"
  by (erule b64_char_cases) (auto simp: word_unat_eq_iff)

lemma b64_char_not_ws: "n < 64 \<Longrightarrow> \<not> is_ascii_whitespace (b64_char n)"
  by (erule b64_char_cases) (auto simp: word_unat_eq_iff is_ascii_whitespace_def)

lemma div_bounds:
  "(a::nat) < 256 \<Longrightarrow> a div 4 < 64"
  "(a::nat) < 256 \<Longrightarrow> a div 16 < 16"
  "(a::nat) < 256 \<Longrightarrow> a div 64 < 4"
  by (simp_all add: less_mult_imp_div_less)

lemma b64_sextets_bound:
  "\<forall>x \<in> set xs. x < 256 \<Longrightarrow> \<forall>s \<in> set (b64_sextets xs). s < 64"
proof (induction xs rule: b64_sextets.induct)
  case (1 a b c r)
  have "a div 4 < 64" "b div 16 < 16" "c div 64 < 4" "a mod 4 < 4" "b mod 16 < 16" "c mod 64 < 64"
    using 1(2) by (simp_all add: div_bounds)
  then have "a div 4 < 64" "a mod 4 * 16 + b div 16 < 64" "b mod 16 * 4 + c div 64 < 64" "c mod 64 < 64"
    by linarith+
  with 1 show ?case by simp
next
  case (2 a b)
  have "a div 4 < 64" "b div 16 < 16" "a mod 4 < 4" "b mod 16 < 16"
    using 2 by (simp_all add: div_bounds)
  then have "a div 4 < 64" "a mod 4 * 16 + b div 16 < 64" "b mod 16 * 4 < 64"
    by linarith+
  then show ?case by simp
next
  case (3 a)
  have "a div 4 < 64" "a mod 4 < 4" using 3 by (simp_all add: div_bounds)
  then have "a div 4 < 64" "a mod 4 * 16 < 64" by linarith+
  then show ?case by simp
next
  case 4
  then show ?case by simp
qed

lemma b64_octets_sextets:
  "\<forall>x \<in> set xs. x < 256 \<Longrightarrow> b64_octets (b64_sextets xs) = xs"
proof (induction xs rule: b64_sextets.induct)
  case (1 a b c r)
  have bb: "b div 16 < 16" "c div 64 < 4" using 1(2) by (simp_all add: div_bounds)
  have e1: "a div 4 * 4 + (a mod 4 * 16 + b div 16) div 16 = a" using bb by simp
  have e2: "(a mod 4 * 16 + b div 16) mod 16 * 16 + (b mod 16 * 4 + c div 64) div 4 = b"
    using bb by simp
  have e3: "(b mod 16 * 4 + c div 64) mod 4 * 64 + c mod 64 = c" using bb by simp
  have "b64_octets (b64_sextets r) = r" using 1 by simp
  then show ?case
    unfolding b64_sextets.simps append_Cons append_Nil b64_octets.simps e1 e2 e3 by simp
next
  case (2 a b)
  have bb: "b div 16 < 16" using 2 by (simp add: div_bounds)
  have e1: "a div 4 * 4 + (a mod 4 * 16 + b div 16) div 16 = a" using bb by simp
  have e2: "(a mod 4 * 16 + b div 16) mod 16 * 16 + (b mod 16 * 4) div 4 = b"
    using bb by simp
  show ?case
    unfolding b64_sextets.simps append_Cons append_Nil b64_octets.simps e1 e2 by simp
next
  case (3 a)
  have e1: "a div 4 * 4 + (a mod 4 * 16) div 16 = a" by simp
  show ?case
    unfolding b64_sextets.simps append_Cons append_Nil b64_octets.simps e1 by simp
next
  case 4
  then show ?case by simp
qed

lemma length_b64_sextets:
  "length (b64_sextets xs) mod 4 = (if length xs mod 3 = 0 then 0 else length xs mod 3 + 1)"
  by (induction xs rule: b64_sextets.induct) simp_all


lemma endsWith_append: "endsWith (xs @ p) p"
  by (simp add: endsWith_def)

lemma endsWith_last: "endsWith d p \<Longrightarrow> p \<noteq> [] \<Longrightarrow> d \<noteq> [] \<and> last d = last p"
  unfolding endsWith_def
  by (metis append_take_drop_id last_appendR length_greater_0_conv less_le_trans list.size(3) not_less)

lemma strip_padding_encode:
  assumes "\<forall>x \<in> set xs. x < 256"
  shows "strip_padding (b64_encode xs) = map b64_char (b64_sextets xs)"
    and "length (strip_padding (b64_encode xs)) mod 4 \<noteq> 1"
proof -
  define body where "body = map b64_char (b64_sextets xs)"
  have nopad: "\<forall>c \<in> set body. c \<noteq> 0x3D"
    using b64_sextets_bound[OF assms] by (auto simp: body_def b64_char_not_pad)
  have len: "length body mod 4 = (if length xs mod 3 = 0 then 0 else length xs mod 3 + 1)"
    by (simp add: body_def length_b64_sextets)
  have last_body: "body \<noteq> [] \<Longrightarrow> last body \<noteq> 0x3D"
    using nopad last_in_set by blast
  consider "length xs mod 3 = 0" | "length xs mod 3 = 1" | "length xs mod 3 = 2"
    by linarith
  then have "strip_padding (b64_encode xs) = body \<and> length body mod 4 \<noteq> 1"
  proof cases
    case 1
    then have e: "b64_encode xs = body" by (simp add: b64_encode_def body_def)
    have "\<not> endsWith body [0x3D, 0x3D]" "\<not> endsWith body [0x3D]"
      using endsWith_last[of body "[0x3D, 0x3D]"] endsWith_last[of body "[0x3D]"] last_body
      by auto
    then show ?thesis using len 1 by (simp add: e strip_padding_def)
  next
    case 2
    then have e: "b64_encode xs = body @ [0x3D, 0x3D]"
      by (simp add: b64_encode_def body_def numeral_2_eq_2)
    have l: "length body mod 4 = 2" using len 2 by simp
    then have "(length body + 2) mod 4 = 0" by presburger
    then show ?thesis
      using l endsWith_append[of body "[0x3D, 0x3D]"] by (simp add: e strip_padding_def)
  next
    case 3
    then have e: "b64_encode xs = body @ [0x3D]"
      by (simp add: b64_encode_def body_def)
    have l: "length body mod 4 = 3" using len 3 by simp
    then have l4: "(length body + 1) mod 4 = 0" by presburger
    have ne: "body \<noteq> []" using l by auto
    have "\<not> endsWith (body @ [0x3D]) [0x3D, 0x3D]"
    proof
      assume "endsWith (body @ [0x3D]) [0x3D, 0x3D]"
      then have "drop (length body - 1) (body @ [0x3D]) = [0x3D, 0x3D]"
        by (simp add: endsWith_def)
      then have "drop (length body - 1) body @ [0x3D] = [0x3D, 0x3D]"
        using ne by simp
      then have "drop (length body - 1) body = [0x3D]" by simp
      then have "0x3D \<in> set body" by (metis in_set_dropD list.set_intros(1))
      then show False using nopad by blast
    qed
    then show ?thesis
      using l l4 endsWith_append[of body "[0x3D]"] by (simp add: e strip_padding_def)
  qed
  then show "strip_padding (b64_encode xs) = map b64_char (b64_sextets xs)"
    and "length (strip_padding (b64_encode xs)) mod 4 \<noteq> 1"
    by (simp_all add: body_def)
qed

lemma filter_ws_encode:
  assumes "\<forall>x \<in> set xs. x < 256"
  shows "filter (\<lambda>c. \<not> is_ascii_whitespace c) (b64_encode xs) = b64_encode xs"
proof -
  have "\<not> is_ascii_whitespace 0x3D" by (simp add: is_ascii_whitespace_def)
  then have "\<forall>c \<in> set (b64_encode xs). \<not> is_ascii_whitespace c"
    using b64_sextets_bound[OF assms]
    by (auto simp: b64_encode_def b64_char_not_ws)
  then show ?thesis by simp
qed

lemma atob_b64_encode:
  assumes "\<forall>x \<in> set xs. x < 256"
  shows "atob (b64_encode xs) = Inr (map of_nat xs)"
proof -
  have v: "\<forall>c \<in> set (map b64_char (b64_sextets xs)). b64_value c \<noteq> None"
    using b64_sextets_bound[OF assms] by (auto simp: b64_value_char)
  have m: "map ((\<lambda>c. the (b64_value c)) \<circ> b64_char) (b64_sextets xs) = b64_sextets xs"
    using b64_sextets_bound[OF assms] by (simp add: b64_value_char map_idI)
  show ?thesis
    using strip_padding_encode[OF assms] v
    by (simp add: atob_def filter_ws_encode[OF assms] Let_def list_ex_iff m
        b64_octets_sextets[OF assms])
qed

lemma unat_ucast_byte: "unat (ucast (b :: byte) :: code_unit) = unat b"
  by transfer (simp add: min_def take_bit_take_bit)

lemma ucast_of_nat_byte: "(ucast (of_nat n :: code_unit) :: byte) = of_nat n"
  by transfer (simp add: take_bit_of_nat min_def)

lemma ucast_ucast_byte: "(ucast (ucast (b :: byte) :: code_unit) :: byte) = b"
  by (rule ucast_up_ucast_id) (simp add: is_up)

lemma base64_roundtrip:
  "arrayBufferToBase64 buffer = Inr (b64_encode (map unat buffer))"
  "base64ToArrayBuffer (b64_encode (map unat buffer)) = Inr buffer"
proof -
  have small: "\<forall>x \<in> set (map unat buffer). x < 256"
    using unsigned_less[where 'a=nat and 'b=8] by auto
  have le: "\<not> list_ex (\<lambda>c. 0xFF < c) (map ucast buffer :: jsstring)"
  proof -
    have "(ucast (b :: byte) :: code_unit) \<le> 0xFF" for b
      using unsigned_less[of b, where 'a=nat] by (simp add: word_le_nat_alt unat_ucast_byte)
    then show ?thesis by (auto simp: list_ex_iff not_less)
  qed
  show "arrayBufferToBase64 buffer = Inr (b64_encode (map unat buffer))"
    using le by (simp add: arrayBufferToBase64_def fromCharCode_loop_eq btoa_def o_def unat_ucast_byte)
  have inv: "map (ucast \<circ> ((of_nat :: nat \<Rightarrow> code_unit) \<circ> unat)) buffer = buffer"
    by (simp add: o_def ucast_ucast_byte)
  show "base64ToArrayBuffer (b64_encode (map unat buffer)) = Inr buffer"
    by (simp add: base64ToArrayBuffer_def atob_b64_encode[OF small] charCodeAt_loop_eq inv)
qed

section \<open>The cipher\<close>

lemma fst_deriveKey:
  "fst (deriveKey P password salt) =
     (case subtle_importKey P (TextEncoder_encode password) of
        None \<Rightarrow> Inl KeyDerivationFailed
      | Some passwordKey \<Rightarrow>
          (case subtle_deriveKey P passwordKey salt 100000 of
             None \<Rightarrow> Inl KeyDerivationFailed
           | Some key \<Rightarrow> Inr key))"
  by (simp add: deriveKey_def io_defs split: option.splits)

lemma length_generateSalt: "length (generateSalt rnd) = 16"
  by (simp add: generateSalt_def getRandomValues_def)

lemma length_generateIV: "length (generateIV rnd) = 12"
  by (simp add: generateIV_def getRandomValues_def)

lemma uint8_set_pack:
  "uint8_set (replicate (length salt + length iv + length encrypted) 0) salt 0
     = Inr (salt @ replicate (length iv + length encrypted) 0)"
  "uint8_set (salt @ replicate (length iv + length encrypted) 0) iv (length salt)
     = Inr (salt @ iv @ replicate (length encrypted) 0)"
  "uint8_set (salt @ iv @ replicate (length encrypted) 0) encrypted (length salt + length iv)
     = Inr (salt @ iv @ encrypted)"
  by (simp_all add: uint8_set_def replicate_add[symmetric] del: replicate_add)

lemma fst_encrypt:
  "fst (encrypt P rnd plaintext password) =
     (case fst (deriveKey P password (generateSalt rnd)) of
        Inl e \<Rightarrow> Inl EncryptFailed
      | Inr key \<Rightarrow>
          (case subtle_encrypt P key (generateIV (advance rnd 16)) (TextEncoder_encode plaintext) of
             None \<Rightarrow> Inl EncryptFailed
           | Some encrypted \<Rightarrow>
               Inr (b64_encode (map unat
                 (generateSalt rnd @ generateIV (advance rnd 16) @ encrypted)))))"
  by (simp add: encrypt_def io_defs Let_def uint8_set_pack base64_roundtrip(1)
      split: sum.splits option.splits)

lemma fst_decrypt:
  "fst (decrypt P ciphertext password) =
     (case base64ToArrayBuffer ciphertext of
        Inl e \<Rightarrow> Inl DecryptFailed
      | Inr data \<Rightarrow>
          (case fst (deriveKey P password (take 16 data)) of
             Inl e \<Rightarrow> Inl DecryptFailed
           | Inr key \<Rightarrow>
               (case subtle_decrypt P key (take 12 (drop 16 data)) (drop 28 data) of
                  None \<Rightarrow> Inl DecryptFailed
                | Some decrypted \<Rightarrow> Inr (TextDecoder_decode decrypted))))"
  by (simp add: decrypt_def io_defs Let_def uint8_slice_def
      split: sum.splits option.splits)


lemma toy_aead_correct: "aead_correct toy_platform"
  by (auto simp: aead_correct_def toy_platform_def toy_tag_def o_def)

lemma decrypt_encrypt:
  assumes "aead_correct P"
    and "fst (encrypt P rnd plaintext secret) = Inr blob"
  shows "fst (decrypt P blob secret) = Inr (TextDecoder_decode (TextEncoder_encode plaintext))"
proof -
  let ?salt = "generateSalt rnd"
  let ?iv = "generateIV (advance rnd 16)"
  from assms(2) obtain key encrypted where
    key: "fst (deriveKey P secret ?salt) = Inr key"
    and enc: "subtle_encrypt P key ?iv (TextEncoder_encode plaintext) = Some encrypted"
    and blob: "blob = b64_encode (map unat (?salt @ ?iv @ encrypted))"
    by (auto simp: fst_encrypt split: sum.splits option.splits)
  have dec: "subtle_decrypt P key ?iv encrypted = Some (TextEncoder_encode plaintext)"
    using assms(1) enc by (auto simp: aead_correct_def)
  have data: "base64ToArrayBuffer blob = Inr (?salt @ ?iv @ encrypted)"
    unfolding blob by (rule base64_roundtrip(2))
  have parts: "take 16 (?salt @ ?iv @ encrypted) = ?salt"
    "take 12 (drop 16 (?salt @ ?iv @ encrypted)) = ?iv"
    "drop 28 (?salt @ ?iv @ encrypted) = encrypted"
    by (simp_all add: length_generateSalt length_generateIV)
  show ?thesis
    unfolding fst_decrypt data sum.case parts key dec option.case ..
qed

text \<open>
  On a plaintext without unpaired surrogates that does not begin with U+FEFF
  the two functions are inverse: if the platform's cipher decrypts what it
  encrypted and \<open>encrypt\<close> returns a blob, \<open>decrypt\<close> of that blob under the
  same secret returns the plaintext.
\<close>

lemma roundtrip_on_plain_text:
  assumes "aead_correct P"
    and "well_formed plaintext"
    and "plaintext = [] \<or> hd plaintext \<noteq> 0xFEFF"
    and "fst (encrypt P rnd plaintext secret) = Inr blob"
  shows "fst (decrypt P blob secret) = Inr plaintext"
  using decrypt_encrypt[OF assms(1,4)] text_codec_roundtrip[OF assms(2,3)] by simp

lemma toy_deriveKey:
  "fst (deriveKey toy_platform password salt) = Inr (salt @ TextEncoder_encode password)"
  by (simp add: fst_deriveKey toy_platform_def)

lemma toy_encrypt:
  "fst (encrypt toy_platform rnd plaintext password) =
     Inr (b64_encode (map unat
       (generateSalt rnd @ generateIV (advance rnd 16) @
        map (\<lambda>b. b + toy_mask (generateSalt rnd @ TextEncoder_encode password))
          (TextEncoder_encode plaintext) @
        toy_tag (generateSalt rnd @ TextEncoder_encode password)
          (generateIV (advance rnd 16)))))"
  unfolding fst_encrypt toy_deriveKey sum.case by (simp add: toy_platform_def)

lemma toy_salt:
  "generateSalt toy_rnd = [3, 10, 17, 24, 31, 38, 45, 52, 59, 66, 73, 80, 87, 94, 101, 108]"
  by code_simp

lemma toy_iv:
  "generateIV (advance toy_rnd 16) =
     [115, 122, 129, 136, 143, 150, 157, 164, 171, 178, 185, 192]"
  by code_simp

lemma encode_s3cret: "TextEncoder_encode (js ''s3cret'') = [115, 51, 99, 114, 101, 116]"
  by (simp add: TextEncoder_encode_def js_def utf8_encode_cp_def is_lead_def is_trail_def)

lemma encode_hunter2: "TextEncoder_encode (js ''hunter2'') = [104, 117, 110, 116, 101, 114, 50]"
  by (simp add: TextEncoder_encode_def js_def utf8_encode_cp_def is_lead_def is_trail_def)

lemma encode_bom_pw: "TextEncoder_encode (0xFEFF # js ''pw'') = [0xEF, 0xBB, 0xBF, 112, 119]"
  by (simp add: TextEncoder_encode_def js_def utf8_encode_cp_def is_lead_def is_trail_def)

lemma toy_encrypt_hunter2:
  "fst (encrypt toy_platform toy_rnd (js ''hunter2'') (js ''s3cret''))
     = Inr (js ''AwoRGB8mLTQ7QklQV15lbHN6gYiPlp2kq7K5wGt4cXdodTX+/v7+/v7+/v7+/v7+/v7+'')"
  unfolding toy_encrypt toy_salt toy_iv encode_s3cret encode_hunter2 by code_simp

lemma roundtrip_on_plain_text_example:
  "fst (encrypt toy_platform toy_rnd (js ''hunter2'') (js ''s3cret''))
     = Inr (js ''AwoRGB8mLTQ7QklQV15lbHN6gYiPlp2kq7K5wGt4cXdodTX+/v7+/v7+/v7+/v7+/v7+'')
   \<and> fst (decrypt toy_platform
       (js ''AwoRGB8mLTQ7QklQV15lbHN6gYiPlp2kq7K5wGt4cXdodTX+/v7+/v7+/v7+/v7+/v7+'')
       (js ''s3cret'')) = Inr (js ''hunter2'')"
proof -
  have w: "well_formed (js ''hunter2'')" by code_simp
  have h: "js ''hunter2'' = [] \<or> hd (js ''hunter2'') \<noteq> 0xFEFF" by code_simp
  show ?thesis
    using toy_encrypt_hunter2
      roundtrip_on_plain_text[OF toy_aead_correct w h toy_encrypt_hunter2] by simp
qed


lemma toy_encrypt_bom_pw:
  "fst (encrypt toy_platform toy_rnd (0xFEFF # js ''pw'') (js ''s3cret''))
     = Inr (js ''AwoRGB8mLTQ7QklQV15lbHN6gYiPlp2kq7K5wPK+wnN6/v7+/v7+/v7+/v7+/v7+/g=='')"
  unfolding toy_encrypt toy_salt toy_iv encode_s3cret encode_bom_pw by code_simp

lemma decode_bom_pw: "TextDecoder_decode [0xEF, 0xBB, 0xBF, 112, 119] = js ''pw''"
  by (simp add: TextDecoder_decode_def js_def code_units_of_def)

lemma decrypt_drops_leading_bom:
  assumes "aead_correct P" and "well_formed p"
    and "fst (encrypt P rnd (0xFEFF # p) secret) = Inr blob"
  shows "fst (decrypt P blob secret) = Inr p"
  using decrypt_encrypt[OF assms(1,3)] leading_bom_is_lost[OF assms(2)] by simp

text \<open>
  C1. The claim is that \<open>decrypt\<close> of the blob \<open>encrypt\<close> made of a non-empty
  plaintext returns that plaintext. The code does not do this for a plaintext
  that begins with U+FEFF, which the password field, read without trimming,
  can deliver: \<open>decrypt\<close> decodes with a \<^verbatim>\<open>new TextDecoder()\<close> that drops this
  first character. For the plaintext U+FEFF \<open>p\<close> \<open>w\<close> it returns \<open>pw\<close>. The
  cipher plays no part in this (\<open>decrypt_drops_leading_bom\<close> holds of every
  platform); the program is run here on \<open>toy_platform\<close>.
\<close>

theorem encrypt_decrypt_roundtrip_counterexample:
  "fst (encrypt toy_platform toy_rnd (0xFEFF # js ''pw'') (js ''s3cret''))
     = Inr (js ''AwoRGB8mLTQ7QklQV15lbHN6gYiPlp2kq7K5wPK+wnN6/v7+/v7+/v7+/v7+/v7+/g=='')
   \<and> fst (decrypt toy_platform
       (js ''AwoRGB8mLTQ7QklQV15lbHN6gYiPlp2kq7K5wPK+wnN6/v7+/v7+/v7+/v7+/v7+/g=='')
       (js ''s3cret'')) = Inr (js ''pw'')
   \<and> js ''pw'' \<noteq> 0xFEFF # js ''pw''"
  using toy_encrypt_bom_pw decrypt_encrypt[OF toy_aead_correct toy_encrypt_bom_pw]
  by (simp add: encode_bom_pw decode_bom_pw)

text \<open>
  C5. \<open>encrypt\<close> draws 16 bytes of salt and then 12 bytes of IV. It throws
  only when the key derivation or the cipher does; otherwise it returns the
  base64 text of salt, IV and cipher output, in this order, and that text
  decodes to exactly these bytes. \<open>decrypt\<close> takes bytes 0 to 16 of a decoded
  blob as salt, bytes 16 to 28 as IV and the rest as ciphertext.
\<close>

theorem blob_wire_format:
  "length (generateSalt rnd) = 16 \<and> length (generateIV (advance rnd 16)) = 12
   \<and> fst (encrypt P rnd plaintext secret) =
        (case fst (deriveKey P secret (generateSalt rnd)) of
           Inl e \<Rightarrow> Inl EncryptFailed
         | Inr key \<Rightarrow>
             (case subtle_encrypt P key (generateIV (advance rnd 16))
                     (TextEncoder_encode plaintext) of
                None \<Rightarrow> Inl EncryptFailed
              | Some encrypted \<Rightarrow>
                  arrayBufferToBase64
                    (generateSalt rnd @ generateIV (advance rnd 16) @ encrypted)))
   \<and> (\<exists>text. arrayBufferToBase64 buffer = Inr text \<and> base64ToArrayBuffer text = Inr buffer)
   \<and> (fst (deriveKey P secret (generateSalt rnd)) = Inr key
        \<and> subtle_encrypt P key (generateIV (advance rnd 16)) (TextEncoder_encode plaintext)
            = Some encrypted \<longrightarrow>
        (\<exists>blob. fst (encrypt P rnd plaintext secret) = Inr blob
           \<and> base64ToArrayBuffer blob
               = Inr (generateSalt rnd @ generateIV (advance rnd 16) @ encrypted)))
   \<and> (fst (encrypt P rnd plaintext secret) = Inr blob \<longrightarrow>
      (\<exists>key encrypted.
         fst (deriveKey P secret (generateSalt rnd)) = Inr key
         \<and> subtle_encrypt P key (generateIV (advance rnd 16)) (TextEncoder_encode plaintext)
             = Some encrypted
         \<and> arrayBufferToBase64 (generateSalt rnd @ generateIV (advance rnd 16) @ encrypted)
             = Inr blob
         \<and> base64ToArrayBuffer blob
             = Inr (generateSalt rnd @ generateIV (advance rnd 16) @ encrypted)))
   \<and> (base64ToArrayBuffer blob' = Inr data \<longrightarrow>
        fst (decrypt P blob' secret') =
          (case fst (deriveKey P secret' (take 16 data)) of
             Inl e \<Rightarrow> Inl DecryptFailed
           | Inr key \<Rightarrow>
               (case subtle_decrypt P key (take 12 (drop 16 data)) (drop 28 data) of
                  None \<Rightarrow> Inl DecryptFailed
                | Some decrypted \<Rightarrow> Inr (TextDecoder_decode decrypted))))"
proof (intro conjI impI)
  let ?salt = "generateSalt rnd"
  let ?iv = "generateIV (advance rnd 16)"
  show "length ?salt = 16" by (rule length_generateSalt)
  show "length ?iv = 12" by (rule length_generateIV)
  show "fst (encrypt P rnd plaintext secret) =
        (case fst (deriveKey P secret ?salt) of
           Inl e \<Rightarrow> Inl EncryptFailed
         | Inr key \<Rightarrow>
             (case subtle_encrypt P key ?iv (TextEncoder_encode plaintext) of
                None \<Rightarrow> Inl EncryptFailed
              | Some encrypted \<Rightarrow> arrayBufferToBase64 (?salt @ ?iv @ encrypted)))"
    unfolding fst_encrypt base64_roundtrip(1) ..
  show "\<exists>text. arrayBufferToBase64 buffer = Inr text \<and> base64ToArrayBuffer text = Inr buffer"
    using base64_roundtrip[of buffer] by blast
next
  let ?salt = "generateSalt rnd"
  let ?iv = "generateIV (advance rnd 16)"
  assume "fst (deriveKey P secret ?salt) = Inr key
        \<and> subtle_encrypt P key ?iv (TextEncoder_encode plaintext) = Some encrypted"
  then have "fst (encrypt P rnd plaintext secret)
      = Inr (b64_encode (map unat (?salt @ ?iv @ encrypted)))"
    by (simp add: fst_encrypt)
  then show "\<exists>blob. fst (encrypt P rnd plaintext secret) = Inr blob
           \<and> base64ToArrayBuffer blob = Inr (?salt @ ?iv @ encrypted)"
    using base64_roundtrip(2)[of "?salt @ ?iv @ encrypted"] by blast
next
  assume e: "fst (encrypt P rnd plaintext secret) = Inr blob"
  let ?salt = "generateSalt rnd"
  let ?iv = "generateIV (advance rnd 16)"
  from e obtain key encrypted where
    key: "fst (deriveKey P secret ?salt) = Inr key"
    and enc: "subtle_encrypt P key ?iv (TextEncoder_encode plaintext) = Some encrypted"
    and blob: "blob = b64_encode (map unat (?salt @ ?iv @ encrypted))"
    by (auto simp: fst_encrypt split: sum.splits option.splits)
  have "arrayBufferToBase64 (?salt @ ?iv @ encrypted) = Inr blob"
    "base64ToArrayBuffer blob = Inr (?salt @ ?iv @ encrypted)"
    unfolding blob by (rule base64_roundtrip)+
  with key enc show "\<exists>key encrypted.
         fst (deriveKey P secret ?salt) = Inr key
         \<and> subtle_encrypt P key ?iv (TextEncoder_encode plaintext) = Some encrypted
         \<and> arrayBufferToBase64 (?salt @ ?iv @ encrypted) = Inr blob
         \<and> base64ToArrayBuffer blob = Inr (?salt @ ?iv @ encrypted)"
    by blast
next
  assume "base64ToArrayBuffer blob' = Inr data"
  then show "fst (decrypt P blob' secret') =
          (case fst (deriveKey P secret' (take 16 data)) of
             Inl e \<Rightarrow> Inl DecryptFailed
           | Inr key \<Rightarrow>
               (case subtle_decrypt P key (take 12 (drop 16 data)) (drop 28 data) of
                  None \<Rightarrow> Inl DecryptFailed
                | Some decrypted \<Rightarrow> Inr (TextDecoder_decode decrypted)))"
    by (simp add: fst_decrypt)
qed

lemma toy_cipher_hunter2:
  "subtle_encrypt toy_platform
     ([3, 10, 17, 24, 31, 38, 45, 52, 59, 66, 73, 80, 87, 94, 101, 108] @
      [115, 51, 99, 114, 101, 116])
     [115, 122, 129, 136, 143, 150, 157, 164, 171, 178, 185, 192]
     [104, 117, 110, 116, 101, 114, 50]
   = Some [107, 120, 113, 119, 104, 117, 53, 254, 254, 254, 254, 254, 254, 254, 254, 254,
           254, 254, 254, 254, 254, 254, 254]"
  by code_simp

lemma hunter2_blob_bytes:
  "js ''AwoRGB8mLTQ7QklQV15lbHN6gYiPlp2kq7K5wGt4cXdodTX+/v7+/v7+/v7+/v7+/v7+'' =
   b64_encode (map unat
     ([3, 10, 17, 24, 31, 38, 45, 52, 59, 66, 73, 80, 87, 94, 101, 108] @
      [115, 122, 129, 136, 143, 150, 157, 164, 171, 178, 185, 192] @
      [107, 120, 113, 119, 104, 117, 53, 254, 254, 254, 254, 254, 254, 254, 254, 254, 254,
       254, 254, 254, 254, 254, 254] :: bytes))"
  by code_simp

theorem blob_wire_format_witness:
  "fst (encrypt toy_platform toy_rnd (js ''hunter2'') (js ''s3cret''))
     = Inr (js ''AwoRGB8mLTQ7QklQV15lbHN6gYiPlp2kq7K5wGt4cXdodTX+/v7+/v7+/v7+/v7+/v7+'')
   \<and> generateSalt toy_rnd
       = [3, 10, 17, 24, 31, 38, 45, 52, 59, 66, 73, 80, 87, 94, 101, 108]
   \<and> generateIV (advance toy_rnd 16)
       = [115, 122, 129, 136, 143, 150, 157, 164, 171, 178, 185, 192]
   \<and> base64ToArrayBuffer
     (js ''AwoRGB8mLTQ7QklQV15lbHN6gYiPlp2kq7K5wGt4cXdodTX+/v7+/v7+/v7+/v7+/v7+'')
     = Inr ([3, 10, 17, 24, 31, 38, 45, 52, 59, 66, 73, 80, 87, 94, 101, 108] @
            [115, 122, 129, 136, 143, 150, 157, 164, 171, 178, 185, 192] @
            [107, 120, 113, 119, 104, 117, 53, 254, 254, 254, 254, 254, 254, 254, 254, 254,
             254, 254, 254, 254, 254, 254, 254])
   \<and> fst (encrypt no_crypto toy_rnd (js ''hunter2'') (js ''s3cret'')) = Inl EncryptFailed
   \<and> fst (decrypt toy_platform
       (js ''AwoRGB8mLTQ7QklQV15lbHN6gYiPlp2kq7K5wGt4cXdodTX+/v7+/v7+/v7+/v7+/v7+'')
       (js ''other'')) = Inl DecryptFailed"
proof -
  let ?blob = "js ''AwoRGB8mLTQ7QklQV15lbHN6gYiPlp2kq7K5wGt4cXdodTX+/v7+/v7+/v7+/v7+/v7+''"
  let ?salt = "[3, 10, 17, 24, 31, 38, 45, 52, 59, 66, 73, 80, 87, 94, 101, 108] :: bytes"
  let ?iv = "[115, 122, 129, 136, 143, 150, 157, 164, 171, 178, 185, 192] :: bytes"
  let ?ct = "[107, 120, 113, 119, 104, 117, 53, 254, 254, 254, 254, 254, 254, 254, 254, 254,
             254, 254, 254, 254, 254, 254, 254] :: bytes"
  let ?data = "?salt @ ?iv @ ?ct"
  note wf = blob_wire_format[where rnd = toy_rnd and P = toy_platform
      and plaintext = "js ''hunter2''" and secret = "js ''s3cret''" and buffer = ?data
      and key = "?salt @ [115, 51, 99, 114, 101, 116]" and encrypted = ?ct and blob = ?blob
      and blob' = ?blob and data = ?data and secret' = "js ''other''"]
  have k: "fst (deriveKey toy_platform (js ''s3cret'') (generateSalt toy_rnd))
      = Inr (?salt @ [115, 51, 99, 114, 101, 116])"
    unfolding toy_deriveKey toy_salt encode_s3cret ..
  have c: "subtle_encrypt toy_platform (?salt @ [115, 51, 99, 114, 101, 116])
      (generateIV (advance toy_rnd 16)) (TextEncoder_encode (js ''hunter2'')) = Some ?ct"
    unfolding toy_iv encode_hunter2 by (rule toy_cipher_hunter2)
  from wf k c obtain blob where
    b: "fst (encrypt toy_platform toy_rnd (js ''hunter2'') (js ''s3cret'')) = Inr blob"
    and d0: "base64ToArrayBuffer blob
        = Inr (generateSalt toy_rnd @ generateIV (advance toy_rnd 16) @ ?ct)"
    by blast
  have "fst (encrypt toy_platform toy_rnd (js ''hunter2'') (js ''s3cret''))
      = arrayBufferToBase64 (generateSalt toy_rnd @ generateIV (advance toy_rnd 16) @ ?ct)"
    using wf k c by simp
  then have e: "fst (encrypt toy_platform toy_rnd (js ''hunter2'') (js ''s3cret'')) = Inr ?blob"
    unfolding toy_salt toy_iv base64_roundtrip(1) hunter2_blob_bytes .
  with b have "blob = ?blob" by simp
  with d0 have d: "base64ToArrayBuffer ?blob = Inr ?data"
    unfolding toy_salt toy_iv by simp
  have o: "TextEncoder_encode (js ''other'') = [111, 116, 104, 101, 114]"
    by (simp add: TextEncoder_encode_def js_def utf8_encode_cp_def is_lead_def is_trail_def)
  have n: "fst (encrypt no_crypto toy_rnd (js ''hunter2'') (js ''s3cret'')) = Inl EncryptFailed"
    using blob_wire_format[where rnd = toy_rnd and P = no_crypto
        and plaintext = "js ''hunter2''" and secret = "js ''s3cret''"]
    by (simp add: fst_deriveKey no_crypto_def)
  have "subtle_decrypt toy_platform
      ([3, 10, 17, 24, 31, 38, 45, 52, 59, 66, 73, 80, 87, 94, 101, 108] @
       [111, 116, 104, 101, 114])
      [115, 122, 129, 136, 143, 150, 157, 164, 171, 178, 185, 192]
      [107, 120, 113, 119, 104, 117, 53, 254, 254, 254, 254, 254, 254, 254, 254, 254,
       254, 254, 254, 254, 254, 254, 254] = None"
    by code_simp
  then have f: "fst (decrypt toy_platform ?blob (js ''other'')) = Inl DecryptFailed"
    using wf d by (simp add: toy_deriveKey o)
  from e d n f toy_salt toy_iv show ?thesis by blast
qed

section \<open>The password wrappers\<close>

lemma fst_getMasterPassword:
  "fst (getMasterPassword st) =
     Inr (if available st \<and> truthy (st_masterPassword st) then st_masterPassword st else None)"
  by (simp add: getMasterPassword_def chrome_storage_get_def io_defs)

lemma resolved_master_truthy:
  "resolved_master st mp = Some m \<Longrightarrow> m \<noteq> []"
  "truthy (resolved_master st mp) \<longleftrightarrow> resolved_master st mp \<noteq> None"
  by (auto simp: resolved_master_def truthy_def split: option.splits if_splits)

lemma fst_resolve:
  "fst (if truthy mp then return mp else getMasterPassword st) = Inr (resolved_master st mp)"
  by (simp add: fst_getMasterPassword resolved_master_def return_def)

lemma fst_encryptPassword:
  "fst (encryptPassword P rnd st password mp) =
     Inr (case resolved_master st mp of
            None \<Rightarrow> password
          | Some m \<Rightarrow> (case fst (encrypt P rnd password m) of
                          Inl e \<Rightarrow> password | Inr blob \<Rightarrow> blob))"
proof -
  have "fst (bind_io m f) = (case fst m of Inl e \<Rightarrow> Inl e | Inr v \<Rightarrow> fst (f v))"
    for m :: "(error + jsstring option) io" and f :: "jsstring option \<Rightarrow> (error + jsstring) io"
    by (simp add: bind_io_def emit_def split: sum.splits)
  then show ?thesis
    unfolding encryptPassword_def
    using resolved_master_truthy(2)[of st mp]
    by (auto simp: fst_resolve try_catch_def emit_def return_def split: option.splits sum.splits)
qed

lemma fst_decryptPassword:
  "fst (decryptPassword P st v mp) =
     Inr (if \<not> isBase64 v then v
          else case resolved_master st mp of
                 None \<Rightarrow> v
               | Some m \<Rightarrow> (case fst (decrypt P v m) of Inl e \<Rightarrow> v | Inr r \<Rightarrow> r))"
proof -
  have "fst (bind_io m f) = (case fst m of Inl e \<Rightarrow> Inl e | Inr v \<Rightarrow> fst (f v))"
    for m :: "(error + jsstring option) io" and f :: "jsstring option \<Rightarrow> (error + jsstring) io"
    by (simp add: bind_io_def emit_def split: sum.splits)
  then show ?thesis
    unfolding decryptPassword_def
    using resolved_master_truthy(2)[of st mp]
    by (auto simp: fst_resolve try_catch_def emit_def return_def split: option.splits sum.splits)
qed

lemma snd_encryptPassword_no_master:
  "resolved_master st mp = None \<Longrightarrow>
   snd (encryptPassword P rnd st password mp)
     = snd (if truthy mp then return mp else getMasterPassword st) @ [ConsoleWarn]"
  unfolding encryptPassword_def
  using resolved_master_truthy(2)[of st mp] fst_resolve[of mp st]
  by (simp add: bind_io_def emit_def return_def split: sum.splits)

text \<open>
  C4. \<open>encryptPassword\<close> never throws. Without a master secret it returns the
  password as it is and writes a warning to the console; with a master secret
  it returns what \<open>encrypt\<close> returns, and the password as it is when
  \<open>encrypt\<close> throws.
\<close>

theorem encryptPassword_fallback:
  "(\<exists>r. fst (encryptPassword P rnd st password mp) = Inr r)
   \<and> (resolved_master st mp = None \<longrightarrow>
        fst (encryptPassword P rnd st password mp) = Inr password
        \<and> ConsoleWarn \<in> set (snd (encryptPassword P rnd st password mp)))
   \<and> (resolved_master st mp = Some m \<and> fst (encrypt P rnd password m) = Inr blob \<longrightarrow>
        fst (encryptPassword P rnd st password mp) = Inr blob)
   \<and> (resolved_master st mp = Some m \<and> fst (encrypt P rnd password m) = Inl e \<longrightarrow>
        fst (encryptPassword P rnd st password mp) = Inr password)"
proof (intro conjI impI)
  show "\<exists>r. fst (encryptPassword P rnd st password mp) = Inr r"
    unfolding fst_encryptPassword by blast
next
  assume none: "resolved_master st mp = None"
  then show "fst (encryptPassword P rnd st password mp) = Inr password"
    by (simp add: fst_encryptPassword)
  from none show "ConsoleWarn \<in> set (snd (encryptPassword P rnd st password mp))"
    by (simp add: snd_encryptPassword_no_master)
next
  assume "resolved_master st mp = Some m \<and> fst (encrypt P rnd password m) = Inr blob"
  then show "fst (encryptPassword P rnd st password mp) = Inr blob"
    by (simp add: fst_encryptPassword)
next
  assume "resolved_master st mp = Some m \<and> fst (encrypt P rnd password m) = Inl e"
  then show "fst (encryptPassword P rnd st password mp) = Inr password"
    by (simp add: fst_encryptPassword)
qed


lemma resolved_master_examples:
  "resolved_master (store_of None envs) None = None"
  "resolved_master (store_of (Some []) envs) None = None"
  "resolved_master (store_of (Some (js ''s3cret'')) envs) None = Some (js ''s3cret'')"
  by (simp_all add: resolved_master_def store_of_def truthy_def js_def)

lemma no_crypto_fails:
  "fst (encrypt no_crypto rnd plaintext secret) = Inl EncryptFailed"
  "fst (decrypt no_crypto blob secret) = Inl DecryptFailed"
  by (simp_all add: fst_encrypt fst_decrypt fst_deriveKey no_crypto_def split: sum.splits)

theorem encryptPassword_fallback_witness:
  "fst (encryptPassword toy_platform toy_rnd (store_of None []) (js ''hunter2'') None)
     = Inr (js ''hunter2'')
   \<and> ConsoleWarn \<in> set (snd
        (encryptPassword toy_platform toy_rnd (store_of None []) (js ''hunter2'') None))
   \<and> fst (encryptPassword toy_platform toy_rnd (store_of (Some (js ''s3cret'')) [])
        (js ''hunter2'') None)
     = Inr (js ''AwoRGB8mLTQ7QklQV15lbHN6gYiPlp2kq7K5wGt4cXdodTX+/v7+/v7+/v7+/v7+/v7+'')
   \<and> fst (encryptPassword no_crypto toy_rnd (store_of (Some (js ''s3cret'')) [])
        (js ''hunter2'') None)
     = Inr (js ''hunter2'')"
  using
    encryptPassword_fallback[of toy_platform toy_rnd "store_of None []" "js ''hunter2''" None]
    encryptPassword_fallback[of toy_platform toy_rnd "store_of (Some (js ''s3cret'')) []"
      "js ''hunter2''" None "js ''s3cret''"
      "js ''AwoRGB8mLTQ7QklQV15lbHN6gYiPlp2kq7K5wGt4cXdodTX+/v7+/v7+/v7+/v7+/v7+''"]
    encryptPassword_fallback[of no_crypto toy_rnd "store_of (Some (js ''s3cret'')) []"
      "js ''hunter2''" None "js ''s3cret''" _ EncryptFailed]
    resolved_master_examples[of "[]"] toy_encrypt_hunter2 no_crypto_fails(1)
  by blast

lemma snd_decryptPassword_plain:
  "\<not> isBase64 v \<Longrightarrow> decryptPassword P st v mp = (Inr v, [])"
  by (simp add: decryptPassword_def return_def)

text \<open>
  C2. \<open>decryptPassword\<close> never throws. It returns its input as it is when the
  input fails the base64-shape test (and then does nothing else), when there
  is no master secret, and when \<open>decrypt\<close> throws; a result that differs
  from the input is the result of a \<open>decrypt\<close> that returned.
\<close>

theorem decryptPassword_fallback:
  "(\<exists>r. fst (decryptPassword P st v mp) = Inr r)
   \<and> (\<not> isBase64 v \<longrightarrow> decryptPassword P st v mp = (Inr v, []))
   \<and> (resolved_master st mp = None \<longrightarrow> fst (decryptPassword P st v mp) = Inr v)
   \<and> (resolved_master st mp = Some m \<and> fst (decrypt P v m) = Inl e \<longrightarrow>
        fst (decryptPassword P st v mp) = Inr v)
   \<and> (fst (decryptPassword P st v mp) = Inr r \<and> r \<noteq> v \<longrightarrow>
        isBase64 v \<and> (\<exists>m. resolved_master st mp = Some m \<and> fst (decrypt P v m) = Inr r))"
proof (intro conjI impI)
  show "\<exists>r. fst (decryptPassword P st v mp) = Inr r"
    unfolding fst_decryptPassword by blast
next
  assume "\<not> isBase64 v"
  then show "decryptPassword P st v mp = (Inr v, [])"
    by (rule snd_decryptPassword_plain)
next
  assume "resolved_master st mp = None"
  then show "fst (decryptPassword P st v mp) = Inr v"
    by (simp add: fst_decryptPassword)
next
  assume "resolved_master st mp = Some m \<and> fst (decrypt P v m) = Inl e"
  then show "fst (decryptPassword P st v mp) = Inr v"
    by (simp add: fst_decryptPassword)
next
  assume d: "fst (decryptPassword P st v mp) = Inr r \<and> r \<noteq> v"
  then show "isBase64 v"
    by (auto simp: fst_decryptPassword split: if_splits)
  from d show "\<exists>m. resolved_master st mp = Some m \<and> fst (decrypt P v m) = Inr r"
    by (auto simp: fst_decryptPassword split: if_splits option.splits sum.splits)
qed

lemma isBase64_examples:
  "isBase64 (js ''abc'')"
  "isBase64 (js ''abcde'')"
  "\<not> isBase64 (js ''p@ss w0rd!'')"
  "isBase64 (js ''AwoRGB8mLTQ7QklQV15lbHN6gYiPlp2kq7K5wGt4cXdodTX+/v7+/v7+/v7+/v7+/v7+'')"
  by code_simp+

lemma toy_decrypt_hunter2:
  "fst (decrypt toy_platform
     (js ''AwoRGB8mLTQ7QklQV15lbHN6gYiPlp2kq7K5wGt4cXdodTX+/v7+/v7+/v7+/v7+/v7+'')
     (js ''s3cret'')) = Inr (js ''hunter2'')"
proof -
  have "TextDecoder_decode (TextEncoder_encode (js ''hunter2'')) = js ''hunter2''"
    by (rule text_codec_roundtrip) code_simp+
  then show ?thesis
    using decrypt_encrypt[OF toy_aead_correct toy_encrypt_hunter2] by simp
qed

theorem decryptPassword_fallback_witness:
  "decryptPassword toy_platform (store_of (Some (js ''s3cret'')) []) (js ''p@ss w0rd!'') None
     = (Inr (js ''p@ss w0rd!''), [])
   \<and> fst (decryptPassword toy_platform (store_of None []) (js ''abc'') None) = Inr (js ''abc'')
   \<and> fst (decryptPassword no_crypto (store_of (Some (js ''s3cret'')) []) (js ''abc'') None)
       = Inr (js ''abc'')
   \<and> fst (decryptPassword toy_platform (store_of (Some (js ''s3cret'')) [])
        (js ''AwoRGB8mLTQ7QklQV15lbHN6gYiPlp2kq7K5wGt4cXdodTX+/v7+/v7+/v7+/v7+/v7+'') None)
       = Inr (js ''hunter2'')"
proof -
  let ?blob = "js ''AwoRGB8mLTQ7QklQV15lbHN6gYiPlp2kq7K5wGt4cXdodTX+/v7+/v7+/v7+/v7+/v7+''"
  let ?st = "store_of (Some (js ''s3cret'')) []"
  note a = decryptPassword_fallback[of toy_platform ?st "js ''p@ss w0rd!''" None]
  note b = decryptPassword_fallback[of toy_platform "store_of None []" "js ''abc''" None]
  note c = decryptPassword_fallback[of no_crypto ?st "js ''abc''" None "js ''s3cret''"
      DecryptFailed]
  note d = decryptPassword_fallback[of toy_platform ?st ?blob None "js ''s3cret''" _
      "js ''hunter2''"]
  have ne: "js ''hunter2'' \<noteq> ?blob" by code_simp
  have 1: "decryptPassword toy_platform ?st (js ''p@ss w0rd!'') None = (Inr (js ''p@ss w0rd!''), [])"
    using a isBase64_examples(3) by blast
  have 2: "fst (decryptPassword toy_platform (store_of None []) (js ''abc'') None) = Inr (js ''abc'')"
    using b resolved_master_examples(1)[of "[]"] by blast
  have 3: "fst (decryptPassword no_crypto ?st (js ''abc'') None) = Inr (js ''abc'')"
    using c resolved_master_examples(3)[of "[]"] no_crypto_fails(2) by blast
  have 4: "fst (decryptPassword toy_platform ?st ?blob None) = Inr (js ''hunter2'')"
    by (simp add: fst_decryptPassword isBase64_examples(4) resolved_master_examples(3)
        toy_decrypt_hunter2)
  from d 4 ne have "isBase64 ?blob" by blast
  with 1 2 3 4 show ?thesis by blast
qed


lemma getMasterPassword_empty_like_absent:
  "st_masterPassword st = Some [] \<Longrightarrow>
   getMasterPassword st = getMasterPassword (st\<lparr>st_masterPassword := None\<rparr>)"
  by (simp add: getMasterPassword_def chrome_storage_get_def io_defs truthy_def)

text \<open>
  C9. When the stored master secret is the empty string, or the store does not
  answer, \<open>getMasterPassword\<close> returns \<open>null\<close>. With the empty string stored
  and no master secret passed by the caller, \<open>encryptPassword\<close> returns the
  password and \<open>decryptPassword\<close> returns its input, and both calls are, in
  result and console output, the calls on a store without a master secret.
  Storing the empty string with \<open>setMasterPassword\<close> leads to this state.
\<close>

theorem empty_master_is_absent:
  "(st_masterPassword st = Some [] \<or> \<not> available st \<longrightarrow>
      fst (getMasterPassword st) = Inr None)
   \<and> (st_masterPassword st = Some [] \<and> \<not> truthy mp \<longrightarrow>
        fst (encryptPassword P rnd st password mp) = Inr password
        \<and> fst (decryptPassword P st v mp) = Inr v
        \<and> encryptPassword P rnd st password mp
            = encryptPassword P rnd (st\<lparr>st_masterPassword := None\<rparr>) password mp
        \<and> decryptPassword P st v mp
            = decryptPassword P (st\<lparr>st_masterPassword := None\<rparr>) v mp)
   \<and> (available st \<longrightarrow>
        st_masterPassword (snd (setMasterPassword st [])) = Some []
        \<and> fst (getMasterPassword (snd (setMasterPassword st []))) = Inr None)"
proof (intro conjI impI)
  assume "st_masterPassword st = Some [] \<or> \<not> available st"
  then show "fst (getMasterPassword st) = Inr None"
    by (auto simp: fst_getMasterPassword truthy_def)
next
  assume a: "st_masterPassword st = Some [] \<and> \<not> truthy mp"
  then have r: "resolved_master st mp = None"
    by (simp add: resolved_master_def truthy_def)
  show "fst (encryptPassword P rnd st password mp) = Inr password"
    by (simp add: fst_encryptPassword r)
  show "fst (decryptPassword P st v mp) = Inr v"
    by (simp add: fst_decryptPassword r)
  show "encryptPassword P rnd st password mp
          = encryptPassword P rnd (st\<lparr>st_masterPassword := None\<rparr>) password mp"
    using a by (simp add: encryptPassword_def getMasterPassword_empty_like_absent)
  show "decryptPassword P st v mp = decryptPassword P (st\<lparr>st_masterPassword := None\<rparr>) v mp"
    using a by (simp add: decryptPassword_def getMasterPassword_empty_like_absent)
next
  assume "available st"
  then show "st_masterPassword (snd (setMasterPassword st [])) = Some []"
    by (simp add: setMasterPassword_def)
next
  assume "available st"
  then show "fst (getMasterPassword (snd (setMasterPassword st []))) = Inr None"
    by (simp add: setMasterPassword_def fst_getMasterPassword truthy_def)
qed

theorem empty_master_is_absent_witness:
  "fst (getMasterPassword (store_of (Some []) [])) = Inr None
   \<and> fst (encryptPassword toy_platform toy_rnd (store_of (Some []) []) (js ''hunter2'') None)
       = Inr (js ''hunter2'')
   \<and> fst (decryptPassword toy_platform (store_of (Some []) []) (js ''abc'') None)
       = Inr (js ''abc'')
   \<and> fst (getMasterPassword (snd (setMasterPassword (store_of (Some (js ''s3cret'')) []) [])))
       = Inr None"
proof -
  have s: "st_masterPassword (store_of (Some []) []) = Some []"
    "available (store_of (Some (js ''s3cret'')) [])"
    "\<not> truthy None"
    by (simp_all add: store_of_def truthy_def)
  show ?thesis
    using empty_master_is_absent[of "store_of (Some []) []" None toy_platform toy_rnd
        "js ''hunter2''" "js ''abc''"]
      empty_master_is_absent[of "store_of (Some (js ''s3cret'')) []" None toy_platform toy_rnd
        "js ''hunter2''" "js ''abc''"] s
    by blast
qed

lemma base64Regex_test_iff:
  "base64Regex_test s \<longleftrightarrow>
     (\<exists>body pad. s = body @ pad \<and> (\<forall>c \<in> set body. is_base64_alphabet c)
        \<and> (pad = [] \<or> pad = [0x3D] \<or> pad = [0x3D, 0x3D]))"
proof
  assume "base64Regex_test s"
  then have "dropWhile is_base64_alphabet s = [] \<or> dropWhile is_base64_alphabet s = [0x3D]
      \<or> dropWhile is_base64_alphabet s = [0x3D, 0x3D]"
    by (simp add: base64Regex_test_def Let_def)
  moreover have "s = takeWhile is_base64_alphabet s @ dropWhile is_base64_alphabet s" by simp
  moreover have "\<forall>c \<in> set (takeWhile is_base64_alphabet s). is_base64_alphabet c"
    by (auto dest: set_takeWhileD)
  ultimately show "\<exists>body pad. s = body @ pad \<and> (\<forall>c \<in> set body. is_base64_alphabet c)
        \<and> (pad = [] \<or> pad = [0x3D] \<or> pad = [0x3D, 0x3D])"
    by blast
next
  assume "\<exists>body pad. s = body @ pad \<and> (\<forall>c \<in> set body. is_base64_alphabet c)
        \<and> (pad = [] \<or> pad = [0x3D] \<or> pad = [0x3D, 0x3D])"
  then obtain body pad where s: "s = body @ pad" and b: "\<forall>c \<in> set body. is_base64_alphabet c"
    and p: "pad = [] \<or> pad = [0x3D] \<or> pad = [0x3D, 0x3D]" by blast
  have n: "\<not> is_base64_alphabet 0x3D" by (simp add: is_base64_alphabet_def)
  have "dropWhile is_base64_alphabet s = dropWhile is_base64_alphabet pad"
    unfolding s using b by (simp add: dropWhile_append)
  also have "\<dots> = pad" using p n by auto
  finally show "base64Regex_test s" using p by (simp add: base64Regex_test_def Let_def)
qed

lemma is_alnum_alphabet: "is_alnum c \<Longrightarrow> is_base64_alphabet c"
  by (auto simp: is_alnum_def is_base64_alphabet_def)

text \<open>
  C10. \<open>isBase64\<close> holds exactly of the non-empty strings made of characters
  of the base64 alphabet followed by at most two \<open>=\<close>, whatever their length:
  of \<open>abc\<close> and \<open>abcde\<close>, and of every non-empty string of letters and
  digits. On such an input, with a master secret, \<open>decryptPassword\<close> returns
  what \<open>decrypt\<close> of the input returns, and the input when \<open>decrypt\<close> throws.
\<close>

theorem isBase64_shape:
  "(isBase64 s \<longleftrightarrow>
      s \<noteq> [] \<and> (\<exists>body pad. s = body @ pad \<and> list_all is_base64_alphabet body
        \<and> (pad = [] \<or> pad = [0x3D] \<or> pad = [0x3D, 0x3D])))
   \<and> isBase64 (js ''abc'') \<and> length (js ''abc'') mod 4 \<noteq> 0
   \<and> (s \<noteq> [] \<and> list_all is_alnum s \<longrightarrow> isBase64 s)
   \<and> (isBase64 v \<and> resolved_master st mp = Some m \<longrightarrow>
        fst (decryptPassword P st v mp)
          = (case fst (decrypt P v m) of Inl e \<Rightarrow> Inr v | Inr r \<Rightarrow> Inr r))"
proof (intro conjI impI)
  show "isBase64 s \<longleftrightarrow>
      s \<noteq> [] \<and> (\<exists>body pad. s = body @ pad \<and> list_all is_base64_alphabet body
        \<and> (pad = [] \<or> pad = [0x3D] \<or> pad = [0x3D, 0x3D]))"
    by (auto simp: isBase64_def base64Regex_test_iff list_all_iff)
  show "isBase64 (js ''abc'')" by (rule isBase64_examples(1))
  show "length (js ''abc'') mod 4 \<noteq> 0" by (simp add: js_def)
next
  assume "s \<noteq> [] \<and> list_all is_alnum s"
  then have "s \<noteq> []" "s = s @ []" "\<forall>c \<in> set s. is_base64_alphabet c"
    by (auto simp: list_all_iff is_alnum_alphabet)
  then show "isBase64 s"
    unfolding isBase64_def base64Regex_test_iff by blast
next
  assume "isBase64 v \<and> resolved_master st mp = Some m"
  then show "fst (decryptPassword P st v mp)
          = (case fst (decrypt P v m) of Inl e \<Rightarrow> Inr v | Inr r \<Rightarrow> Inr r)"
    by (simp add: fst_decryptPassword split: sum.splits)
qed


lemma toy_decrypt_abc:
  "fst (decrypt toy_platform (js ''abc'') (js ''s3cret'')) = Inl DecryptFailed"
proof -
  have "base64ToArrayBuffer (js ''abc'') = Inr [105, 183]" by code_simp
  then show ?thesis
    unfolding fst_decrypt toy_deriveKey by (simp add: toy_platform_def)
qed

theorem isBase64_shape_witness:
  "isBase64 (js ''abcde'')
   \<and> fst (decryptPassword toy_platform (store_of (Some (js ''s3cret'')) []) (js ''abc'') None)
       = Inr (js ''abc'')
   \<and> fst (decryptPassword toy_platform (store_of (Some (js ''s3cret'')) [])
        (js ''AwoRGB8mLTQ7QklQV15lbHN6gYiPlp2kq7K5wGt4cXdodTX+/v7+/v7+/v7+/v7+/v7+'') None)
       = Inr (js ''hunter2'')"
proof -
  let ?blob = "js ''AwoRGB8mLTQ7QklQV15lbHN6gYiPlp2kq7K5wGt4cXdodTX+/v7+/v7+/v7+/v7+/v7+''"
  let ?st = "store_of (Some (js ''s3cret'')) []"
  have al: "js ''abcde'' \<noteq> [] \<and> list_all is_alnum (js ''abcde'')" by code_simp
  note a = isBase64_shape[of "js ''abcde''" "js ''abc''" ?st None "js ''s3cret''" toy_platform]
  note b = isBase64_shape[of "js ''abcde''" ?blob ?st None "js ''s3cret''" toy_platform]
  have 1: "isBase64 (js ''abcde'')" using a al by blast
  have 2: "fst (decryptPassword toy_platform ?st (js ''abc'') None) = Inr (js ''abc'')"
    using a resolved_master_examples(3)[of "[]"] toy_decrypt_abc by simp
  have 3: "fst (decryptPassword toy_platform ?st ?blob None) = Inr (js ''hunter2'')"
    using b resolved_master_examples(3)[of "[]"] isBase64_examples(4) toy_decrypt_hunter2
    by simp
  from 1 2 3 show ?thesis by blast
qed

text \<open>
  The two ways a password that begins with U+FEFF is stored and read back.
  Without a master secret it is stored as it is and returned as it is. With a
  master secret it is stored encrypted and returned without its first
  character.
\<close>

lemma leading_bom_password_paths:
  "fst (encryptPassword toy_platform toy_rnd (store_of None []) (0xFEFF # js ''pw'') None)
     = Inr (0xFEFF # js ''pw'')
   \<and> fst (decryptPassword toy_platform (store_of None []) (0xFEFF # js ''pw'') None)
     = Inr (0xFEFF # js ''pw'')
   \<and> fst (encryptPassword toy_platform toy_rnd (store_of (Some (js ''s3cret'')) [])
        (0xFEFF # js ''pw'') None)
     = Inr (js ''AwoRGB8mLTQ7QklQV15lbHN6gYiPlp2kq7K5wPK+wnN6/v7+/v7+/v7+/v7+/v7+/g=='')
   \<and> fst (decryptPassword toy_platform (store_of (Some (js ''s3cret'')) [])
        (js ''AwoRGB8mLTQ7QklQV15lbHN6gYiPlp2kq7K5wPK+wnN6/v7+/v7+/v7+/v7+/v7+/g=='') None)
     = Inr (js ''pw'')"
proof -
  let ?blob = "js ''AwoRGB8mLTQ7QklQV15lbHN6gYiPlp2kq7K5wPK+wnN6/v7+/v7+/v7+/v7+/v7+/g==''"
  have b: "isBase64 ?blob" by code_simp
  have d: "fst (decrypt toy_platform ?blob (js ''s3cret'')) = Inr (js ''pw'')"
    using decrypt_encrypt[OF toy_aead_correct toy_encrypt_bom_pw]
    by (simp add: encode_bom_pw decode_bom_pw)
  show ?thesis
    by (simp add: fst_encryptPassword fst_decryptPassword resolved_master_examples
        toy_encrypt_bom_pw b d)
qed

section \<open>The environment matcher\<close>

lemma fst_new_URL:
  "fst (new_URL parse s) = (case parse s of None \<Rightarrow> Inl TypeError | Some u \<Rightarrow> Inr u)"
  and snd_new_URL: "snd (new_URL parse s) = [NewURL s]"
  by (simp_all add: new_URL_def io_defs split: option.splits)

lemma fst_match_env:
  "fst (match_env parse n env) = Inr (if env_matches parse n env then Some env else None)"
  by (simp add: match_env_def env_matches_def fst_io fst_new_URL Let_def split: option.splits)

lemma fst_match_loop:
  "fst (match_loop parse n envs) = Inr (find (env_matches parse n) envs)"
  by (induction envs) (simp_all add: fst_match_env fst_io)

lemma fst_matchEnvironment:
  "fst (matchEnvironment parse st currentUrl) =
     Inr (if currentUrl = [] \<or> \<not> available st then None
          else find (env_matches parse (normalized_candidate parse currentUrl))
                 (case st_environments st of None \<Rightarrow> [] | Some es \<Rightarrow> es))"
  by (simp add: matchEnvironment_def chrome_storage_get_def fst_io fst_new_URL Let_def
      fst_match_loop normalized_candidate_def split: option.splits)


lemma fst_initFloatingPanel:
  "fst (initFloatingPanel parse st location_protocol href) =
     (if location_protocol = js ''chrome:'' \<or> location_protocol = js ''chrome-extension:''
         \<or> href = [] \<or> \<not> startsWith href (js ''http'')
      then Inr None else fst (matchEnvironment parse st href))"
  by (simp add: initFloatingPanel_def fst_io fst_matchEnvironment)

lemma parseURL_examples:
  "parseURL (js ''https://a.com/login'') =
     Some \<lparr>protocol = js ''https:'', host = js ''a.com'', pathname = js ''/login'',
           search = [], hash = []\<rparr>"
  "parseURL (js ''https://a.com/login/'') =
     Some \<lparr>protocol = js ''https:'', host = js ''a.com'', pathname = js ''/login/'',
           search = [], hash = []\<rparr>"
  "parseURL (js ''https://a.com/login?x=1'') =
     Some \<lparr>protocol = js ''https:'', host = js ''a.com'', pathname = js ''/login'',
           search = js ''?x=1'', hash = []\<rparr>"
  "parseURL (js ''https://a.com/sso/*'') =
     Some \<lparr>protocol = js ''https:'', host = js ''a.com'', pathname = js ''/sso/*'',
           search = [], hash = []\<rparr>"
  "parseURL (js ''https://a.com/sso/step2'') =
     Some \<lparr>protocol = js ''https:'', host = js ''a.com'', pathname = js ''/sso/step2'',
           search = [], hash = []\<rparr>"
  "parseURL (js ''https://b.com/sso/step2'') =
     Some \<lparr>protocol = js ''https:'', host = js ''b.com'', pathname = js ''/sso/step2'',
           search = [], hash = []\<rparr>"
  "parseURL (js ''https://a.com/login/*'') =
     Some \<lparr>protocol = js ''https:'', host = js ''a.com'', pathname = js ''/login/*'',
           search = [], hash = []\<rparr>"
  "parseURL (js ''https://a.com/loginextra'') =
     Some \<lparr>protocol = js ''https:'', host = js ''a.com'', pathname = js ''/loginextra'',
           search = [], hash = []\<rparr>"
  "parseURL (js ''httpx://a.com/login'') =
     Some \<lparr>protocol = js ''httpx:'', host = js ''a.com'', pathname = js ''/login'',
           search = [], hash = []\<rparr>"
  "parseURL (js ''ftp://a.com/login'') =
     Some \<lparr>protocol = js ''ftp:'', host = js ''a.com'', pathname = js ''/login'',
           search = [], hash = []\<rparr>"
  "parseURL (js ''login page'') = None"
  by code_simp+

lemma normalizeUrl_examples:
  "normalizeUrl \<lparr>protocol = js ''https:'', host = js ''a.com'', pathname = js ''/login'',
           search = [], hash = []\<rparr> = js ''https://a.com/login''"
  "normalizeUrl \<lparr>protocol = js ''https:'', host = js ''a.com'', pathname = js ''/login/'',
           search = [], hash = []\<rparr> = js ''https://a.com/login''"
  "normalizeUrl \<lparr>protocol = js ''https:'', host = js ''a.com'', pathname = js ''/login'',
           search = js ''?x=1'', hash = []\<rparr> = js ''https://a.com/login''"
  "normalizeUrl \<lparr>protocol = js ''https:'', host = js ''a.com'', pathname = js ''/sso/*'',
           search = [], hash = []\<rparr> = js ''https://a.com/sso'' @ js ''/*''"
  "normalizeUrl \<lparr>protocol = js ''https:'', host = js ''a.com'', pathname = js ''/sso/step2'',
           search = [], hash = []\<rparr> = js ''https://a.com/sso/step2''"
  "normalizeUrl \<lparr>protocol = js ''https:'', host = js ''b.com'', pathname = js ''/sso/step2'',
           search = [], hash = []\<rparr> = js ''https://b.com/sso/step2''"
  "normalizeUrl \<lparr>protocol = js ''https:'', host = js ''a.com'', pathname = js ''/login/*'',
           search = [], hash = []\<rparr> = js ''https://a.com/login'' @ js ''/*''"
  "normalizeUrl \<lparr>protocol = js ''https:'', host = js ''a.com'', pathname = js ''/loginextra'',
           search = [], hash = []\<rparr> = js ''https://a.com/loginextra''"
  "normalizeUrl \<lparr>protocol = js ''httpx:'', host = js ''a.com'', pathname = js ''/login'',
           search = [], hash = []\<rparr> = js ''httpx://a.com/login''"
  "normalizeUrl \<lparr>protocol = js ''ftp:'', host = js ''a.com'', pathname = js ''/login'',
           search = [], hash = []\<rparr> = js ''ftp://a.com/login''"
  by code_simp+

lemma store_of_simps:
  "available (store_of m envs)"
  "st_environments (store_of m envs) = Some envs"
  "st_masterPassword (store_of m envs) = m"
  by (simp_all add: store_of_def)

lemma loginUrl_env_of: "loginUrl (env_of n u) = js u"
  by (simp add: env_of_def)

lemma js_nonempty: "js (c # cs) \<noteq> []"
  by (simp add: js_def)

text \<open>
  C3 (amended). \<open>matchEnvironment\<close> on the empty candidate returns not-found and
  parses nothing. \<open>initFloatingPanel\<close>, on a page address that is empty or does
  not begin with the four characters \<open>http\<close>, returns without a match and
  without any call of \<^verbatim>\<open>new URL\<close>; so it does on \<open>chrome://extensions\<close>. Neither
  function throws, whatever the candidate and the store.
\<close>

theorem non_http_short_circuit:
  "matchEnvironment parse st [] = (Inr None, [])
   \<and> (href = [] \<or> \<not> startsWith href (js ''http'') \<longrightarrow>
        fst (initFloatingPanel parse st location_protocol href) = Inr None
        \<and> list_all (\<lambda>e. e = ConsoleDebug)
             (snd (initFloatingPanel parse st location_protocol href)))
   \<and> initFloatingPanel parse st (js ''chrome:'') (js ''chrome://extensions'') = (Inr None, [])
   \<and> (\<exists>r. fst (matchEnvironment parse st currentUrl) = Inr r)
   \<and> (\<exists>r. fst (initFloatingPanel parse st location_protocol href) = Inr r)"
proof (intro conjI impI)
  show "matchEnvironment parse st [] = (Inr None, [])"
    by (simp add: matchEnvironment_def return_def)
  show "initFloatingPanel parse st (js ''chrome:'') (js ''chrome://extensions'') = (Inr None, [])"
    by (simp add: initFloatingPanel_def return_def)
  show "\<exists>r. fst (matchEnvironment parse st currentUrl) = Inr r"
    by (simp add: fst_matchEnvironment)
  show "\<exists>r. fst (initFloatingPanel parse st location_protocol href) = Inr r"
    by (simp add: fst_initFloatingPanel fst_matchEnvironment)
next
  assume a: "href = [] \<or> \<not> startsWith href (js ''http'')"
  then show "fst (initFloatingPanel parse st location_protocol href) = Inr None"
    by (auto simp: fst_initFloatingPanel)
  from a show "list_all (\<lambda>e. e = ConsoleDebug)
      (snd (initFloatingPanel parse st location_protocol href))"
    by (auto simp: initFloatingPanel_def snd_io)
qed

theorem non_http_short_circuit_witness:
  "fst (initFloatingPanel parseURL (store_of None [env_of ''mail'' ''ftp://a.com/login''])
          (js ''ftp:'') (js ''ftp://a.com/login'')) = Inr None
   \<and> snd (initFloatingPanel parseURL (store_of None [env_of ''mail'' ''ftp://a.com/login''])
          (js ''ftp:'') (js ''ftp://a.com/login'')) = [ConsoleDebug]"
proof -
  have g: "\<not> startsWith (js ''ftp://a.com/login'') (js ''http'')" by code_simp
  have p: "js ''ftp:'' \<noteq> js ''chrome:''" "js ''ftp:'' \<noteq> js ''chrome-extension:''" by code_simp+
  have s: "snd (initFloatingPanel parseURL (store_of None [env_of ''mail'' ''ftp://a.com/login''])
          (js ''ftp:'') (js ''ftp://a.com/login'')) = [ConsoleDebug]"
    using g p by (simp add: initFloatingPanel_def snd_io)
  show ?thesis
    using non_http_short_circuit[of parseURL "store_of None [env_of ''mail'' ''ftp://a.com/login'']"
        "js ''ftp://a.com/login''" "js ''ftp:''"] g s
    by blast
qed

text \<open>
  C3 as stated fails. \<open>httpx://a.com/login\<close> is not an HTTP(S) address, yet it
  passes the guard of \<open>initFloatingPanel\<close>, is parsed and normalised, and is
  matched to an environment registered under it. \<open>matchEnvironment\<close> itself
  has no test of the scheme: called on \<open>ftp://a.com/login\<close> it parses the
  candidate and returns the environment registered under that address.
\<close>

theorem non_http_short_circuit_counterexample:
  "initFloatingPanel parseURL (store_of None [env_of ''sso'' ''httpx://a.com/login''])
      (js ''httpx:'') (js ''httpx://a.com/login'')
     = (Inr (Some (env_of ''sso'' ''httpx://a.com/login'')),
        [NewURL (js ''httpx://a.com/login''), NewURL (js ''httpx://a.com/login''),
         ConsoleDebug, ConsoleDebug])
   \<and> matchEnvironment parseURL (store_of None [env_of ''mail'' ''ftp://a.com/login''])
      (js ''ftp://a.com/login'')
     = (Inr (Some (env_of ''mail'' ''ftp://a.com/login'')),
        [NewURL (js ''ftp://a.com/login''), NewURL (js ''ftp://a.com/login''), ConsoleDebug])"
proof -
  have g: "startsWith (js ''httpx://a.com/login'') (js ''http'')"
    "js ''httpx:'' \<noteq> js ''chrome:''" "js ''httpx:'' \<noteq> js ''chrome-extension:''"
    by code_simp+
  have m: "matchEnvironment parseURL (store_of None [env_of n u]) (js u)
      = (Inr (Some (env_of n u)), [NewURL (js u), NewURL (js u), ConsoleDebug])"
    if "parseURL (js u) = Some v" "js u \<noteq> []" for n u v
    using that
    by (simp add: matchEnvironment_def match_env_def chrome_storage_get_def store_of_simps
        loginUrl_env_of new_URL_def io_defs Let_def)
  show ?thesis
    using g m[OF parseURL_examples(9)] m[OF parseURL_examples(10)]
    by (simp add: initFloatingPanel_def js_nonempty io_defs)
qed








lemma endsWith_wildcard: "endsWith (base @ js ''/*'') (js ''/*'')"
  by (simp add: endsWith_def js_def)

lemma slice_wildcard: "slice_0_minus2 (base @ js ''/*'') = base"
  by (simp add: slice_0_minus2_def js_def)

lemma endsWith_wildcard_iff: "endsWith s (js ''/*'') \<longleftrightarrow> (\<exists>base. s = base @ js ''/*'')"
proof
  assume "endsWith s (js ''/*'')"
  then have "s = take (length s - 2) s @ js ''/*''"
    unfolding endsWith_def by (metis append_take_drop_id length_map js_def list.size(3,4)
        One_nat_def Suc_1 add.commute plus_1_eq_Suc)
  then show "\<exists>base. s = base @ js ''/*''" by blast
next
  assume "\<exists>base. s = base @ js ''/*''"
  then show "endsWith s (js ''/*'')" using endsWith_wildcard by blast
qed

text \<open>
  C7. An environment whose \<open>loginUrl\<close> has a normal form ending in \<open>/*\<close>, that
  is \<open>base\<close> followed by \<open>/*\<close>, matches every candidate whose normal form
  begins with \<open>base\<close>, as strings: alone in the list it is returned for such
  a candidate, and for no candidate that neither begins with \<open>base\<close> nor
  equals the normal form. In a longer list some environment is returned. So
  \<open>https://a.com/sso/*\<close> matches \<open>https://a.com/sso/step2\<close> and not
  \<open>https://b.com/sso/step2\<close>, and \<open>https://a.com/login/*\<close> matches
  \<open>https://a.com/loginextra\<close>.
\<close>

theorem wildcard_match:
  "(currentUrl \<noteq> [] \<and> available st \<and> loginUrl env \<noteq> []
      \<and> parse (loginUrl env) = Some eu \<and> endsWith (normalizeUrl eu) (js ''/*'') \<longrightarrow>
        normalizeUrl eu = slice_0_minus2 (normalizeUrl eu) @ js ''/*''
      \<and> (st_environments st = Some [env] \<longrightarrow>
           fst (matchEnvironment parse st currentUrl)
             = Inr (if startsWith (normalized_candidate parse currentUrl)
                         (slice_0_minus2 (normalizeUrl eu))
                       \<or> normalized_candidate parse currentUrl = normalizeUrl eu
                    then Some env else None))
      \<and> (st_environments st = Some envs \<and> env \<in> set envs
          \<and> startsWith (normalized_candidate parse currentUrl)
                (slice_0_minus2 (normalizeUrl eu)) \<longrightarrow>
           (\<exists>e. fst (matchEnvironment parse st currentUrl) = Inr (Some e))))
   \<and> fst (matchEnvironment parseURL (store_of None [env_of ''sso'' ''https://a.com/sso/*''])
        (js ''https://a.com/sso/step2'')) = Inr (Some (env_of ''sso'' ''https://a.com/sso/*''))
   \<and> fst (matchEnvironment parseURL (store_of None [env_of ''sso'' ''https://a.com/sso/*''])
        (js ''https://b.com/sso/step2'')) = Inr None
   \<and> fst (matchEnvironment parseURL (store_of None [env_of ''l'' ''https://a.com/login/*''])
        (js ''https://a.com/loginextra'')) = Inr (Some (env_of ''l'' ''https://a.com/login/*''))"
proof (intro conjI impI)
  assume a: "currentUrl \<noteq> [] \<and> available st \<and> loginUrl env \<noteq> []
      \<and> parse (loginUrl env) = Some eu \<and> endsWith (normalizeUrl eu) (js ''/*'')"
  then obtain base where base: "normalizeUrl eu = base @ js ''/*''"
    using endsWith_wildcard_iff by blast
  then have sl: "slice_0_minus2 (normalizeUrl eu) = base" by (simp add: slice_wildcard)
  show "normalizeUrl eu = slice_0_minus2 (normalizeUrl eu) @ js ''/*''"
    unfolding sl by (rule base)
  have m: "env_matches parse n env \<longleftrightarrow> n = normalizeUrl eu \<or> startsWith n base" for n
    using a sl by (auto simp: env_matches_def)
  {
    assume "st_environments st = Some [env]"
    then show "fst (matchEnvironment parse st currentUrl)
             = Inr (if startsWith (normalized_candidate parse currentUrl)
                         (slice_0_minus2 (normalizeUrl eu))
                       \<or> normalized_candidate parse currentUrl = normalizeUrl eu
                    then Some env else None)"
      unfolding sl using a by (auto simp: fst_matchEnvironment m)
  next
    assume b: "st_environments st = Some envs \<and> env \<in> set envs
          \<and> startsWith (normalized_candidate parse currentUrl)
                (slice_0_minus2 (normalizeUrl eu))"
    then have "\<exists>e \<in> set envs. env_matches parse (normalized_candidate parse currentUrl) e"
      using m sl by auto
    then have "find (env_matches parse (normalized_candidate parse currentUrl)) envs \<noteq> None"
      by (auto simp: find_None_iff)
    then show "\<exists>e. fst (matchEnvironment parse st currentUrl) = Inr (Some e)"
      using a b by (auto simp: fst_matchEnvironment)
  }
next
  have s: "startsWith (js ''https://a.com/sso/step2'') (js ''https://a.com/sso'')"
    "\<not> startsWith (js ''https://b.com/sso/step2'') (js ''https://a.com/sso'')"
    "js ''https://b.com/sso/step2'' \<noteq> js ''https://a.com/sso'' @ js ''/*''"
    "startsWith (js ''https://a.com/loginextra'') (js ''https://a.com/login'')"
    by code_simp+
  show "fst (matchEnvironment parseURL (store_of None [env_of ''sso'' ''https://a.com/sso/*''])
        (js ''https://a.com/sso/step2'')) = Inr (Some (env_of ''sso'' ''https://a.com/sso/*''))"
    using s
    by (simp add: fst_matchEnvironment store_of_simps env_matches_def loginUrl_env_of
        js_nonempty normalized_candidate_def parseURL_examples normalizeUrl_examples
        endsWith_wildcard slice_wildcard)
  show "fst (matchEnvironment parseURL (store_of None [env_of ''sso'' ''https://a.com/sso/*''])
        (js ''https://b.com/sso/step2'')) = Inr None"
    using s
    by (simp add: fst_matchEnvironment store_of_simps env_matches_def loginUrl_env_of
        js_nonempty normalized_candidate_def parseURL_examples normalizeUrl_examples
        endsWith_wildcard slice_wildcard)
  show "fst (matchEnvironment parseURL (store_of None [env_of ''l'' ''https://a.com/login/*''])
        (js ''https://a.com/loginextra'')) = Inr (Some (env_of ''l'' ''https://a.com/login/*''))"
    using s
    by (simp add: fst_matchEnvironment store_of_simps env_matches_def loginUrl_env_of
        js_nonempty normalized_candidate_def parseURL_examples normalizeUrl_examples
        endsWith_wildcard slice_wildcard)
qed


theorem wildcard_match_witness:
  "fst (matchEnvironment parseURL (store_of None [env_of ''sso'' ''https://a.com/sso/*''])
        (js ''https://a.com/sso/step2'')) = Inr (Some (env_of ''sso'' ''https://a.com/sso/*''))
   \<and> fst (matchEnvironment parseURL
        (store_of None [env_of ''a'' ''https://a.com/login'', env_of ''sso'' ''https://a.com/sso/*''])
        (js ''https://a.com/sso/step2'')) \<noteq> Inr None"
proof -
  let ?sso = "env_of ''sso'' ''https://a.com/sso/*''"
  let ?a = "env_of ''a'' ''https://a.com/login''"
  let ?eu = "\<lparr>protocol = js ''https:'', host = js ''a.com'', pathname = js ''/sso/*'',
           search = [], hash = []\<rparr>"
  let ?c = "js ''https://a.com/sso/step2''"
  have nc: "normalized_candidate parseURL ?c = ?c"
    by (simp add: normalized_candidate_def parseURL_examples normalizeUrl_examples)
  have sl: "slice_0_minus2 (normalizeUrl ?eu) = js ''https://a.com/sso''"
    unfolding normalizeUrl_examples by (rule slice_wildcard)
  have sw: "startsWith (normalized_candidate parseURL ?c) (slice_0_minus2 (normalizeUrl ?eu))"
    unfolding nc sl by code_simp
  have h: "?c \<noteq> [] \<and> available (store_of None [?sso]) \<and> loginUrl ?sso \<noteq> []
      \<and> parseURL (loginUrl ?sso) = Some ?eu \<and> endsWith (normalizeUrl ?eu) (js ''/*'')"
    "?c \<noteq> [] \<and> available (store_of None [?a, ?sso]) \<and> loginUrl ?sso \<noteq> []
      \<and> parseURL (loginUrl ?sso) = Some ?eu \<and> endsWith (normalizeUrl ?eu) (js ''/*'')"
    by (simp_all add: store_of_simps loginUrl_env_of js_nonempty parseURL_examples
        normalizeUrl_examples endsWith_wildcard)
  have 1: "fst (matchEnvironment parseURL (store_of None [?sso]) ?c) = Inr (Some ?sso)"
    using wildcard_match[where currentUrl = ?c and st = "store_of None [?sso]" and env = ?sso
        and parse = parseURL and eu = ?eu] h(1) sw
    by (simp add: store_of_simps)
  have "\<exists>e. fst (matchEnvironment parseURL (store_of None [?a, ?sso]) ?c) = Inr (Some e)"
    using wildcard_match[where currentUrl = ?c and st = "store_of None [?a, ?sso]"
        and env = ?sso and parse = parseURL and eu = ?eu and envs = "[?a, ?sso]"] h(2) sw
    by (simp add: store_of_simps)
  then have 2: "fst (matchEnvironment parseURL (store_of None [?a, ?sso]) ?c) \<noteq> Inr None"
    by auto
  from 1 2 show ?thesis by blast
qed

lemma find_skip: "\<forall>e \<in> set xs. \<not> P e \<Longrightarrow> find P (xs @ ys) = find P ys"
  by (induction xs) auto

text \<open>
  C8. The environments are tried in the order of the list and the first that
  matches is returned: when two environments of the list match the candidate
  and none before the earlier of them does, the earlier one is returned. Two
  environments registered under \<open>https://a.com/login\<close> and
  \<open>https://a.com/login/\<close> have the same normal form, and the first is returned.
\<close>

theorem first_match_wins:
  "(currentUrl \<noteq> [] \<and> available st
      \<and> st_environments st = Some (before @ e1 # between @ e2 # after)
      \<and> env_matches parse (normalized_candidate parse currentUrl) e1
      \<and> env_matches parse (normalized_candidate parse currentUrl) e2
      \<and> list_all (\<lambda>e. \<not> env_matches parse (normalized_candidate parse currentUrl) e) before
      \<longrightarrow> fst (matchEnvironment parse st currentUrl) = Inr (Some e1))
   \<and> (currentUrl \<noteq> [] \<and> available st \<and> st_environments st = Some envs \<longrightarrow>
        fst (matchEnvironment parse st currentUrl)
          = Inr (find (env_matches parse (normalized_candidate parse currentUrl)) envs))"
proof (intro conjI impI)
  assume a: "currentUrl \<noteq> [] \<and> available st
      \<and> st_environments st = Some (before @ e1 # between @ e2 # after)
      \<and> env_matches parse (normalized_candidate parse currentUrl) e1
      \<and> env_matches parse (normalized_candidate parse currentUrl) e2
      \<and> list_all (\<lambda>e. \<not> env_matches parse (normalized_candidate parse currentUrl) e) before"
  let ?m = "env_matches parse (normalized_candidate parse currentUrl)"
  have "\<forall>e \<in> set before. \<not> ?m e" using a by (simp add: list_all_iff)
  then have "find ?m (before @ e1 # between @ e2 # after) = find ?m (e1 # between @ e2 # after)"
    by (rule find_skip)
  then have "find ?m (before @ e1 # between @ e2 # after) = Some e1"
    using a by simp
  then show "fst (matchEnvironment parse st currentUrl) = Inr (Some e1)"
    using a by (simp add: fst_matchEnvironment)
next
  assume "currentUrl \<noteq> [] \<and> available st \<and> st_environments st = Some envs"
  then show "fst (matchEnvironment parse st currentUrl)
          = Inr (find (env_matches parse (normalized_candidate parse currentUrl)) envs)"
    by (simp add: fst_matchEnvironment)
qed

theorem first_match_wins_witness:
  "fst (matchEnvironment parseURL
     (store_of None [env_of ''sso'' ''https://a.com/sso/*'', env_of ''first'' ''https://a.com/login'',
                     env_of ''second'' ''https://a.com/login/''])
     (js ''https://a.com/login?x=1'')) = Inr (Some (env_of ''first'' ''https://a.com/login''))"
proof -
  let ?sso = "env_of ''sso'' ''https://a.com/sso/*''"
  let ?e1 = "env_of ''first'' ''https://a.com/login''"
  let ?e2 = "env_of ''second'' ''https://a.com/login/''"
  let ?c = "js ''https://a.com/login?x=1''"
  have nc: "normalized_candidate parseURL ?c = js ''https://a.com/login''"
    by (simp add: normalized_candidate_def parseURL_examples normalizeUrl_examples)
  have sw: "\<not> startsWith (js ''https://a.com/login'') (js ''https://a.com/sso'')"
    "js ''https://a.com/login'' \<noteq> js ''https://a.com/sso'' @ js ''/*''"
    by code_simp+
  have m: "env_matches parseURL (normalized_candidate parseURL ?c) ?e1"
    "env_matches parseURL (normalized_candidate parseURL ?c) ?e2"
    "\<not> env_matches parseURL (normalized_candidate parseURL ?c) ?sso"
    unfolding nc using sw
    by (simp_all add: env_matches_def loginUrl_env_of js_nonempty parseURL_examples
        normalizeUrl_examples slice_wildcard)
  show ?thesis
    using first_match_wins[where currentUrl = ?c and st = "store_of None [?sso, ?e1, ?e2]"
        and parse = parseURL and before = "[?sso]" and ?e1.0 = ?e1 and between = "[]"
        and ?e2.0 = ?e2 and after = "[]" and envs = "[?sso, ?e1, ?e2]"] m
    by (simp add: store_of_simps js_nonempty)
qed

end
